theory Spec2Isabelle
  imports Main "HOL-Library.AList"
begin

section \<open>Constants of automatic\_shopping\_trolley.py\<close>

text \<open>
  The single-character commands understood by the motor peripheral. Python compares and
  interpolates them as strings, so they stay strings here.
\<close>

abbreviation CMD_FORWARD :: string where "CMD_FORWARD \<equiv> ''F''"
abbreviation CMD_BACKWARD :: string where "CMD_BACKWARD \<equiv> ''B''"
abbreviation CMD_STOP :: string where "CMD_STOP \<equiv> ''S''"
abbreviation CMD_LEFT :: string where "CMD_LEFT \<equiv> ''L''"
abbreviation CMD_RIGHT :: string where "CMD_RIGHT \<equiv> ''R''"
abbreviation CMD_SLIGHT_LEFT :: string where "CMD_SLIGHT_LEFT \<equiv> ''M''"
abbreviation CMD_SLIGHT_RIGHT :: string where "CMD_SLIGHT_RIGHT \<equiv> ''N''"

text \<open>The four line-follower states; the source uses four distinct string constants.\<close>

datatype line_state = LINE_CENTERED | LINE_SLIGHT_LEFT | LINE_SLIGHT_RIGHT | LINE_LOST

definition NODE_MAPPING :: "(string \<times> nat) list" where
  "NODE_MAPPING =
     [(''home'', 0),
      (''RFJ1'', 1), (''RFJ2'', 2), (''RFJ3'', 3),
      (''RBJ1'', 4), (''RBJ2'', 5), (''RBJ3'', 6),
      (''pdt1'', 7), (''pdt2'', 8), (''pdt3'', 9),
      (''pdt4'', 10), (''pdt5'', 11), (''pdt6'', 12),
      (''pdt7'', 13), (''pdt8'', 14), (''pdt9'', 15)]"

text \<open>\<open>node_name in NODE_MAPPING\<close>: membership among the keys of the dictionary.\<close>

definition in_NODE_MAPPING :: "string \<Rightarrow> bool" where
  "in_NODE_MAPPING node_name = (node_name \<in> set (map fst NODE_MAPPING))"

text \<open>
  Durations are natural numbers of milliseconds: \<open>time.sleep(0.05)\<close> is \<open>sleep 50\<close>.
  \<open>Navigator.__init__\<close> sets \<open>navigation_timeout = 60\<close> and \<open>turn_timeout = 20\<close>
  (seconds) and nothing reassigns them.
\<close>

definition navigation_timeout :: nat where "navigation_timeout = 60000"
definition turn_timeout :: nat where "turn_timeout = 20000"

section \<open>Strings\<close>

text \<open>\<open>s.startswith(p)\<close>.\<close>

definition startswith :: "string \<Rightarrow> string \<Rightarrow> bool" where
  "startswith p s = (take (length p) s = p)"

text \<open>
  \<open>str.lower()\<close> on the ASCII letters; the tag UIDs are hexadecimal text, every other
  character is left as it is.
\<close>

definition lower_char :: "char \<Rightarrow> char" where
  "lower_char c =
     (case map_of (zip ''ABCDEFGHIJKLMNOPQRSTUVWXYZ'' ''abcdefghijklmnopqrstuvwxyz'') c of
        Some d \<Rightarrow> d
      | None \<Rightarrow> c)"

definition lower :: "string \<Rightarrow> string" where
  "lower s = map lower_char s"

section \<open>The environment and the state of the controller\<close>

text \<open>
  What the outside world supplies, indexed by the number of the call that asks for it:
  the \<open>k\<close>-th call of \<open>receive_line\<close> returns \<open>serial_lines env k\<close> (\<open>None\<close> when
  nothing is waiting, on a timeout or on a decode error), the \<open>k\<close>-th call of
  \<open>read_ir_sensors\<close> returns \<open>ir_readings env k\<close> (the failsafe \<open>(1, 1, 1)\<close> included),
  and \<open>uid_registry env node\<close> is the value stored at \<open>/products/node/uid\<close>.
\<close>

record env =
  serial_lines :: "nat \<Rightarrow> string option"
  ir_readings :: "nat \<Rightarrow> int \<times> int \<times> int"
  uid_registry :: "string \<Rightarrow> string option"

text \<open>
  The mutable state: the clock in milliseconds (it advances in \<open>time.sleep\<close> only), the
  number of serial and sensor reads made so far, the commands written to the serial port
  and the status messages written to the store, both in order, the navigator's
  \<open>current_node\<close>, the processing flags and the persisted carts of the store.
\<close>

record world =
  clock :: nat
  serial_reads :: nat
  sensor_reads :: nat
  sent :: "string list"
  statuses :: "(string \<times> string) list"
  current_node :: string
  processing :: "string \<rightharpoonup> bool"
  carts :: "string \<Rightarrow> (string \<times> int) list"

definition sleep :: "nat \<Rightarrow> world \<Rightarrow> world" where
  "sleep ms w = w\<lparr>clock := clock w + ms\<rparr>"

text \<open>\<open>HardwareInterface\<close>, with the serial port open.\<close>

definition send_command :: "string \<Rightarrow> world \<Rightarrow> world" where
  "send_command command w = w\<lparr>sent := sent w @ [command]\<rparr>"

definition receive_line :: "env \<Rightarrow> world \<Rightarrow> string option \<times> world" where
  "receive_line e w = (serial_lines e (serial_reads w), w\<lparr>serial_reads := Suc (serial_reads w)\<rparr>)"

definition read_ir_sensors :: "env \<Rightarrow> world \<Rightarrow> (int \<times> int \<times> int) \<times> world" where
  "read_ir_sensors e w = (ir_readings e (sensor_reads w), w\<lparr>sensor_reads := Suc (sensor_reads w)\<rparr>)"

text \<open>\<open>FirebaseComm\<close>, with the store reachable.\<close>

definition update_trolley_status :: "string \<Rightarrow> string \<Rightarrow> world \<Rightarrow> world" where
  "update_trolley_status request_id status_message w =
     w\<lparr>statuses := statuses w @ [(request_id, status_message)]\<rparr>"

definition get_expected_uid :: "env \<Rightarrow> string \<Rightarrow> string option" where
  "get_expected_uid e node_name =
     (case uid_registry e node_name of
        None \<Rightarrow> None
      | Some uid \<Rightarrow> if uid = [] then None else Some (lower uid))"

section \<open>LineFollower\<close>

text \<open>
  \<open>get_state\<close> tests the sensor values for truth: an integer is true when it is not zero.
  The fifth and sixth tests are written as in the source, which names \<open>left_sensor\<close>
  three and two times.
\<close>

definition truthy :: "int \<Rightarrow> bool" where
  "truthy x = (x \<noteq> 0)"

definition get_state :: "int \<Rightarrow> int \<Rightarrow> int \<Rightarrow> line_state" where
  "get_state left_sensor center_sensor right_sensor =
     (if truthy left_sensor \<and> \<not> truthy center_sensor \<and> truthy right_sensor then LINE_CENTERED
      else if truthy left_sensor \<and> \<not> truthy center_sensor \<and> \<not> truthy right_sensor
        then LINE_SLIGHT_LEFT
      else if \<not> truthy left_sensor \<and> \<not> truthy center_sensor \<and> truthy right_sensor
        then LINE_SLIGHT_RIGHT
      else if \<not> truthy left_sensor \<and> \<not> truthy center_sensor \<and> \<not> truthy right_sensor
        then LINE_CENTERED
      else if \<not> truthy left_sensor \<and> truthy left_sensor \<and> truthy left_sensor
        then LINE_SLIGHT_RIGHT
      else if truthy left_sensor \<and> truthy left_sensor \<and> \<not> truthy right_sensor
        then LINE_SLIGHT_LEFT
      else LINE_CENTERED)"

section \<open>Navigator\<close>

text \<open>
  \<open>Navigator.__init__\<close> starts at \<open>"home"\<close>; \<open>set_current_position\<close> is the manual
  override.
\<close>

definition navigator_init :: "world \<Rightarrow> world" where
  "navigator_init w = w\<lparr>current_node := ''home''\<rparr>"

definition set_current_position :: "string \<Rightarrow> world \<Rightarrow> world" where
  "set_current_position node_name w =
     (if in_NODE_MAPPING node_name \<or> node_name = ''home''
      then w\<lparr>current_node := node_name\<rparr>
      else w)"

definition get_turn_for_transition :: "string \<Rightarrow> string \<Rightarrow> string option" where
  "get_turn_for_transition start_node end_node =
     (if start_node = ''home'' \<and> startswith ''RFJ'' end_node then None
      else if startswith ''RFJ'' start_node \<and> startswith ''pdt'' end_node then Some CMD_RIGHT
      else if startswith ''RBJ'' start_node \<and> startswith ''RFJ'' end_node then Some CMD_RIGHT
      else if startswith ''RBJ'' start_node \<and> startswith ''RBJ'' end_node then Some CMD_LEFT
      else if startswith ''RFJ'' start_node \<and> end_node = ''home'' then Some CMD_RIGHT
      else None)"

subsection \<open>execute\_simple\_turn\<close>

text \<open>The test on the raw reading that ends a turn: \<open>left == 1 or center == 1 or right == 0\<close>.\<close>

definition turn_stop :: "int \<times> int \<times> int \<Rightarrow> bool" where
  "turn_stop sensors =
     (case sensors of (left, center, right) \<Rightarrow> left = 1 \<or> center = 1 \<or> right = 0)"

text \<open>
  The polling loop of \<open>execute_simple_turn\<close>. On a reading that passes the test it sleeps
  0.9 s, sends the stop command, sleeps 0.2 s and returns \<open>True\<close>; when the time is up it
  sends the stop command, reports the timeout and returns \<open>False\<close>.
\<close>

function turn_loop :: "env \<Rightarrow> string \<Rightarrow> string \<Rightarrow> nat \<Rightarrow> world \<Rightarrow> bool \<times> world" where
  "turn_loop e turn_command request_id start_time w =
     (if clock w - start_time < turn_timeout then
        (let rd = read_ir_sensors e w; sensors = fst rd; w1 = snd rd in
         if turn_stop sensors
         then (True, sleep 200 (send_command CMD_STOP (sleep 900 w1)))
         else turn_loop e turn_command request_id start_time (sleep 50 w1))
      else
        (False,
         update_trolley_status request_id (''error:turn_timeout:'' @ turn_command)
           (send_command CMD_STOP w)))"
  by pat_completeness auto
termination
  by (relation "measure (\<lambda>(e, turn_command, request_id, start_time, w).
        turn_timeout + start_time - clock w)")
     (auto simp: sleep_def read_ir_sensors_def)

definition execute_simple_turn :: "env \<Rightarrow> string \<Rightarrow> string \<Rightarrow> world \<Rightarrow> bool \<times> world" where
  "execute_simple_turn e turn_command request_id w =
     (let w1 = send_command turn_command w;
          start_time = clock w1;
          w2 = sleep 1500 w1
      in turn_loop e turn_command request_id start_time w2)"

subsection \<open>navigate\_to\_node\<close>

text \<open>
  The RFID test of both loops: the line is not empty and starts with \<open>RFID:\<close>; the UID
  is \<open>serial_line[5:].lower()\<close>.
\<close>

definition rfid_uid :: "string option \<Rightarrow> string option" where
  "rfid_uid serial_line =
     (case serial_line of
        None \<Rightarrow> None
      | Some line \<Rightarrow>
          if line \<noteq> [] \<and> startswith ''RFID:'' line then Some (lower (drop 5 line)) else None)"

text \<open>
  Step 2 of the loop body: the command the line state asks for; any other state keeps the
  default, the previous command.
\<close>

definition required_command :: "line_state \<Rightarrow> string \<Rightarrow> string" where
  "required_command line_state last_command_sent =
     (if line_state = LINE_CENTERED then CMD_FORWARD
      else if line_state = LINE_SLIGHT_LEFT then CMD_SLIGHT_RIGHT
      else if line_state = LINE_SLIGHT_RIGHT then CMD_SLIGHT_LEFT
      else last_command_sent)"

text \<open>\<open>self.lf.get_state(*sensors)\<close>: the reading is unpacked into the three arguments.\<close>

definition get_state_of :: "(int \<Rightarrow> int \<Rightarrow> int \<Rightarrow> line_state) \<Rightarrow> int \<times> int \<times> int \<Rightarrow> line_state" where
  "get_state_of lf sensors = (case sensors of (l, c, r) \<Rightarrow> lf l c r)"

text \<open>
  The correction loop. The line follower \<open>lf\<close> is the object handed to
  \<open>Navigator.__init__\<close>; the controller hands it \<open>get_state\<close>. The local variable
  \<open>last_command_sent\<close> is an argument of the loop.
\<close>

function nav_loop ::
  "env \<Rightarrow> (int \<Rightarrow> int \<Rightarrow> int \<Rightarrow> line_state) \<Rightarrow> string \<Rightarrow> string \<Rightarrow> string \<Rightarrow> nat \<Rightarrow> string \<Rightarrow> world
     \<Rightarrow> bool \<times> world" where
  "nav_loop e lf destination_node_name request_id expected_uid start_time last_command_sent w =
     (if clock w - start_time < navigation_timeout then
        (let rl = receive_line e w; serial_line = fst rl; w1 = snd rl in
         case rfid_uid serial_line of
           Some received_uid \<Rightarrow>
             if received_uid = expected_uid
             then (True,
                   sleep 500
                     (update_trolley_status request_id (''arrived_at:'' @ destination_node_name)
                        (w1\<lparr>current_node := destination_node_name\<rparr>)))
             else nav_loop e lf destination_node_name request_id expected_uid start_time
                    CMD_FORWARD (sleep 300 (send_command CMD_FORWARD w1))
         | None \<Rightarrow>
             (let rd = read_ir_sensors e w1; sensors = fst rd; w2 = snd rd;
                  line_state = get_state_of lf sensors;
                  required = required_command line_state last_command_sent
              in if required \<noteq> last_command_sent
                 then nav_loop e lf destination_node_name request_id expected_uid start_time
                        required (sleep 50 (send_command required w2))
                 else nav_loop e lf destination_node_name request_id expected_uid start_time
                        last_command_sent (sleep 50 w2)))
      else
        (False,
         update_trolley_status request_id
           (''error:nav_timeout:'' @ current_node w @ ''->'' @ destination_node_name)
           (send_command CMD_STOP w)))"
  by pat_completeness auto
termination
  by (relation "measure (\<lambda>(e, lf, d, request_id, u, start_time, last, w).
        navigation_timeout + start_time - clock w)")
     (auto simp: sleep_def send_command_def read_ir_sensors_def receive_line_def)

definition navigate_to_node ::
  "env \<Rightarrow> (int \<Rightarrow> int \<Rightarrow> int \<Rightarrow> line_state) \<Rightarrow> string \<Rightarrow> string \<Rightarrow> world \<Rightarrow> bool \<times> world" where
  "navigate_to_node e lf destination_node_name request_id w =
     (if current_node w = destination_node_name then (True, w)
      else
        (let w1 = update_trolley_status request_id (''moving_to:'' @ destination_node_name) w in
         case get_expected_uid e destination_node_name of
           None \<Rightarrow>
             (False,
              update_trolley_status request_id (''error:no_uid:'' @ destination_node_name) w1)
         | Some expected_uid \<Rightarrow>
             (case get_turn_for_transition (current_node w1) destination_node_name of
                Some initial_turn \<Rightarrow>
                  (let t = execute_simple_turn e initial_turn request_id w1 in
                   if \<not> fst t then (False, snd t)
                   else (let w2 = send_command CMD_FORWARD (snd t) in
                         nav_loop e lf destination_node_name request_id expected_uid (clock w2)
                           CMD_FORWARD w2))
              | None \<Rightarrow>
                  (let w2 = send_command CMD_FORWARD w1 in
                   nav_loop e lf destination_node_name request_id expected_uid (clock w2)
                     CMD_FORWARD w2))))"

subsection \<open>reverse\_until\_node\<close>

function reverse_loop :: "env \<Rightarrow> string \<Rightarrow> string \<Rightarrow> string \<Rightarrow> nat \<Rightarrow> world \<Rightarrow> bool \<times> world" where
  "reverse_loop e destination_node_name request_id expected_uid start_time w =
     (if clock w - start_time < navigation_timeout then
        (let rl = receive_line e w; serial_line = fst rl; w1 = snd rl in
         case rfid_uid serial_line of
           Some received_uid \<Rightarrow>
             if received_uid = expected_uid
             then (True,
                   sleep 500
                     (update_trolley_status request_id (''arrived_at:'' @ destination_node_name)
                        ((send_command CMD_STOP w1)\<lparr>current_node := destination_node_name\<rparr>)))
             else reverse_loop e destination_node_name request_id expected_uid start_time
                    (sleep 50 (sleep 300 (send_command CMD_BACKWARD w1)))
         | None \<Rightarrow>
             reverse_loop e destination_node_name request_id expected_uid start_time (sleep 50 w1))
      else
        (False,
         update_trolley_status request_id
           (''error:reverse_timeout:'' @ current_node w @ ''->'' @ destination_node_name)
           (send_command CMD_STOP w)))"
  by pat_completeness auto
termination
  by (relation "measure (\<lambda>(e, d, request_id, u, start_time, w).
        navigation_timeout + start_time - clock w)")
     (auto simp: sleep_def send_command_def receive_line_def)

definition reverse_until_node :: "env \<Rightarrow> string \<Rightarrow> string \<Rightarrow> world \<Rightarrow> bool \<times> world" where
  "reverse_until_node e destination_node_name request_id w =
     (if current_node w = ''home'' \<or> destination_node_name = ''home'' then (False, w)
      else
        (let w1 = update_trolley_status request_id (''reversing_to:'' @ destination_node_name) w in
         case get_expected_uid e destination_node_name of
           None \<Rightarrow>
             (False,
              update_trolley_status request_id (''error:no_uid:'' @ destination_node_name) w1)
         | Some expected_uid \<Rightarrow>
             (let w2 = send_command CMD_BACKWARD w1 in
              reverse_loop e destination_node_name request_id expected_uid (clock w2) w2)))"

section \<open>TrolleyController\<close>

subsection \<open>The request boundary\<close>

text \<open>
  The data of a store event is JSON. An exception is a value; all the exceptions below
  derive from \<open>Exception\<close>, \<open>Raised name\<close> being whatever else a callee raises.
\<close>

datatype json = JNull | JBool bool | JInt int | JStr string | JDict "(string \<times> json) list"

datatype py_exception = AttributeError | NameError | Raised string

record event =
  event_type :: string
  path :: string
  data :: json

text \<open>The processing flag at \<open>/trolleyProcessing/request_id\<close>.\<close>

definition set_processing_status :: "string \<Rightarrow> bool \<Rightarrow> world \<Rightarrow> world" where
  "set_processing_status request_id status w =
     w\<lparr>processing := (processing w)(request_id \<mapsto> status)\<rparr>"

definition delete_processing_status :: "string \<Rightarrow> world \<Rightarrow> world" where
  "delete_processing_status request_id w = w\<lparr>processing := (processing w)(request_id := None)\<rparr>"

definition is_processing :: "string \<Rightarrow> world \<Rightarrow> bool" where
  "is_processing request_id w = (processing w request_id = Some True)"

text \<open>\<open>event.path.split('/')[-1]\<close>: what follows the last slash.\<close>

definition last_segment :: "string \<Rightarrow> string" where
  "last_segment p = rev (takeWhile (\<lambda>c. c \<noteq> CHR ''/'') (rev p))"

text \<open>
  \<open>process_request\<close>. Its two callees, \<open>_move_trolley_to_home\<close> and
  \<open>process_shopping_list\<close>, are arguments: they return, or raise, and change the state as
  they like. \<open>data.get\<close> exists on a dictionary only. After the journey home the source
  tests \<open>if success:\<close>, a name bound nowhere, which raises NameError.
\<close>

definition process_request ::
  "(string \<Rightarrow> world \<Rightarrow> (py_exception + unit) \<times> world) \<Rightarrow>
   (string \<Rightarrow> json \<Rightarrow> world \<Rightarrow> (py_exception + unit) \<times> world) \<Rightarrow>
   string \<Rightarrow> json \<Rightarrow> world \<Rightarrow> (py_exception + unit) \<times> world" where
  "process_request move_trolley_to_home process_shopping_list request_id dat w =
     (case dat of
        JDict d \<Rightarrow>
          if map_of d ''action'' = Some (JStr ''home'') then
            (case move_trolley_to_home request_id w of
               (Inl ex, w1) \<Rightarrow> (Inl ex, w1)
             | (Inr u, w1) \<Rightarrow> (Inl NameError, w1))
          else if (case map_of d ''cart'' of Some (JDict c) \<Rightarrow> True | _ \<Rightarrow> False) then
            process_shopping_list request_id dat w
          else
            (Inr (), update_trolley_status request_id ''error:invalid_request_format'' w)
      | _ \<Rightarrow> (Inl AttributeError, w))"

text \<open>
  \<open>_handle_new_request_callback\<close>: \<open>try\<close>, \<open>except Exception\<close>, \<open>finally\<close> around
  \<open>process_request\<close>.
\<close>

definition handle_new_request_callback ::
  "(string \<Rightarrow> world \<Rightarrow> (py_exception + unit) \<times> world) \<Rightarrow>
   (string \<Rightarrow> json \<Rightarrow> world \<Rightarrow> (py_exception + unit) \<times> world) \<Rightarrow>
   event \<Rightarrow> world \<Rightarrow> world" where
  "handle_new_request_callback move_trolley_to_home process_shopping_list ev w =
     (if event_type ev = ''put'' \<or> event_type ev = ''patch'' then
        (let request_id = last_segment (path ev) in
         if request_id = [] \<or> request_id = ''trolleyRequests'' \<or> data ev = JNull then w
         else if is_processing request_id w then w
         else
           (let w1 = set_processing_status request_id True w in
            case process_request move_trolley_to_home process_shopping_list request_id (data ev) w1 of
              (Inr u, w2) \<Rightarrow> delete_processing_status request_id w2
            | (Inl ex, w2) \<Rightarrow>
                delete_processing_status request_id
                  (send_command CMD_STOP
                     (update_trolley_status request_id ''error:critical_processing_exception'' w2))))
      else w)"

subsection \<open>The cart merge of process\_shopping\_list\<close>

text \<open>
  A quantity of the incoming cart, as far as the loop looks at it: \<open>int(quantity)\<close>
  returns an integer, or raises ValueError or TypeError. A cart is a dictionary from
  product ids to integers, in insertion order.
\<close>

datatype quantity = Converts int | Fails

fun py_int :: "quantity \<Rightarrow> int option" where
  "py_int (Converts n) = Some n"
| "py_int Fails = None"

text \<open>The loop over \<open>new_cart_items.items()\<close>; \<open>existing_cart.get(product_id, 0)\<close>.\<close>

definition cart_get :: "(string \<times> int) list \<Rightarrow> string \<Rightarrow> int" where
  "cart_get cart product_id = (case map_of cart product_id of None \<Rightarrow> 0 | Some q \<Rightarrow> q)"

fun merge_items :: "(string \<times> int) list \<Rightarrow> (string \<times> quantity) list \<Rightarrow> (string \<times> int) list" where
  "merge_items existing_cart [] = existing_cart"
| "merge_items existing_cart ((product_id, quantity) # rest) =
     (if product_id = ''processed'' \<or> product_id = ''action'' then merge_items existing_cart rest
      else
        (case py_int quantity of
           None \<Rightarrow> merge_items existing_cart rest
         | Some add_qty \<Rightarrow>
             merge_items
               (AList.update product_id (cart_get existing_cart product_id + add_qty) existing_cart)
               rest))"

text \<open>\<open>final_cart = {pid: qty for pid, qty in existing_cart.items() if qty > 0}\<close>.\<close>

definition final_cart :: "(string \<times> int) list \<Rightarrow> (string \<times> int) list" where
  "final_cart existing_cart = filter (\<lambda>(pid, qty). qty > 0) existing_cart"

text \<open>
  The first part of \<open>process_shopping_list\<close>, up to \<open>set_cart\<close>: the status, the merge of
  the incoming items into the persisted cart of the request, the filter, the write.
\<close>

definition merge_shopping_list :: "string \<Rightarrow> (string \<times> quantity) list \<Rightarrow> world \<Rightarrow> world" where
  "merge_shopping_list request_id new_cart_items w =
     (let w1 = update_trolley_status request_id ''processing_list'' w;
          existing_cart = carts w1 request_id;
          merged = merge_items existing_cart new_cart_items
      in w1\<lparr>carts := (carts w1)(request_id := final_cart merged)\<rparr>)"

text \<open>
  What the store holds after any merge: a dictionary (no key twice) of positive
  quantities.
\<close>

definition persisted_cart :: "(string \<times> int) list \<Rightarrow> bool" where
  "persisted_cart cart = (distinct (map fst cart) \<and> list_all (\<lambda>(pid, qty). qty > 0) cart)"

section \<open>Notions used in the statements\<close>

text \<open>
  A line carrying the expected UID was received between two states: one of the serial
  reads made in between returned an RFID line whose UID is \<open>u\<close>.
\<close>

definition uid_match_received :: "env \<Rightarrow> string \<Rightarrow> world \<Rightarrow> world \<Rightarrow> bool" where
  "uid_match_received e u w w' =
     (\<exists>k. serial_reads w \<le> k \<and> k < serial_reads w' \<and> rfid_uid (serial_lines e k) = Some u)"


text \<open>The classifier outputs on the readings polled between two states.\<close>

definition polled_states ::
  "(int \<Rightarrow> int \<Rightarrow> int \<Rightarrow> line_state) \<Rightarrow> env \<Rightarrow> world \<Rightarrow> world \<Rightarrow> line_state list" where
  "polled_states lf e w w' =
     map (\<lambda>k. get_state_of lf (ir_readings e k)) [sensor_reads w ..< sensor_reads w']"

text \<open>
  Steps 2 and 3 of the loop body over a list of classifier outputs, one per iteration:
  the commands sent, in order, starting from the last command sent before.
\<close>

fun correction_commands :: "string \<Rightarrow> line_state list \<Rightarrow> string list" where
  "correction_commands last_command_sent [] = []"
| "correction_commands last_command_sent (s # ss) =
     (let required = required_command s last_command_sent in
      if required \<noteq> last_command_sent then required # correction_commands required ss
      else correction_commands last_command_sent ss)"

text \<open>The number of iterations whose classifier output repeats that of the one before.\<close>

fun repeats :: "line_state list \<Rightarrow> nat" where
  "repeats (s # t # ss) = (if s = t then 1 else 0) + repeats (t # ss)"
| "repeats ss = 0"

subsection \<open>Concrete environments and states\<close>

text \<open>
  A state at rest at \<open>home\<close>, and environments in which nothing arrives on the serial
  line: one over the all-light reading, one over the reading \<open>(1, 0, 0)\<close>, one over the
  reading \<open>(0, 0, 1)\<close>; the registry knows \<open>RFJ1\<close>. In the last environment the registry
  also knows a name \<open>RFJ4\<close> and its tag is read at once.
\<close>

definition world0 :: world where
  "world0 = \<lparr>clock = 0, serial_reads = 0, sensor_reads = 0, sent = [], statuses = [],
             current_node = ''home'', processing = Map.empty, carts = (\<lambda>r. [])\<rparr>"

text \<open>The same state with the trolley at \<open>pdt4\<close>.\<close>

definition world_pdt4 :: world where
  "world_pdt4 = world0\<lparr>current_node := ''pdt4''\<rparr>"

definition registry1 :: "string \<Rightarrow> string option" where
  "registry1 = Map.empty(''RFJ1'' \<mapsto> ''04A1B2'', ''RFJ4'' \<mapsto> ''04C3D4'')"

definition env_all_light :: env where
  "env_all_light = \<lparr>serial_lines = Map.empty, ir_readings = (\<lambda>k. (1, 1, 1)), uid_registry = registry1\<rparr>"

definition env_100 :: env where
  "env_100 = \<lparr>serial_lines = Map.empty, ir_readings = (\<lambda>k. (1, 0, 0)), uid_registry = registry1\<rparr>"


definition env_tag :: env where
  "env_tag = \<lparr>serial_lines = (\<lambda>k. Some ''RFID:04C3D4''), ir_readings = (\<lambda>k. (1, 0, 1)),
               uid_registry = registry1\<rparr>"

text \<open>
  A state whose store holds the cart \<open>{pdt1: 2}\<close>; callees that return at once; a request
  for the journey home and a request with neither an action nor a cart.
\<close>

definition world_cart :: world where
  "world_cart = world0\<lparr>carts := (\<lambda>r. [(''pdt1'', 2)])\<rparr>"

definition home_returns :: "string \<Rightarrow> world \<Rightarrow> (py_exception + unit) \<times> world" where
  "home_returns request_id w = (Inr (), w)"

definition list_returns :: "string \<Rightarrow> json \<Rightarrow> world \<Rightarrow> (py_exception + unit) \<times> world" where
  "list_returns request_id dat w = (Inr (), w)"

definition event_home :: event where
  "event_home = \<lparr>event_type = ''put'', path = ''/req1'',
                  data = JDict [(''action'', JStr ''home'')]\<rparr>"

definition event_empty :: event where
  "event_empty = \<lparr>event_type = ''patch'', path = ''/req1'', data = JDict []\<rparr>"



text \<open>A line follower that reports \<open>LINE_LOST\<close> on every reading.\<close>

definition lf_lost :: "int \<Rightarrow> int \<Rightarrow> int \<Rightarrow> line_state" where
  "lf_lost l c r = LINE_LOST"

text \<open>The loops are unfolded one iteration at a time, by the lemmas that follow.\<close>

declare turn_loop.simps [simp del]
declare nav_loop.simps [simp del]
declare reverse_loop.simps [simp del]

section \<open>Proofs\<close>

lemmas ops = sleep_def send_command_def receive_line_def read_ir_sensors_def
  update_trolley_status_def

subsection \<open>The turn loop, one iteration at a time\<close>

lemma turn_loop_timeout:
  "\<not> clock w - start < turn_timeout \<Longrightarrow>
   turn_loop e c rid start w =
     (False, update_trolley_status rid (''error:turn_timeout:'' @ c) (send_command CMD_STOP w))"
  by (subst turn_loop.simps) simp

lemma turn_loop_stop:
  "clock w - start < turn_timeout \<Longrightarrow> turn_stop (ir_readings e (sensor_reads w)) \<Longrightarrow>
   turn_loop e c rid start w =
     (True, sleep 200 (send_command CMD_STOP
                        (sleep 900 (w\<lparr>sensor_reads := Suc (sensor_reads w)\<rparr>))))"
  by (subst turn_loop.simps) (simp add: Let_def read_ir_sensors_def)

lemma turn_loop_step:
  "clock w - start < turn_timeout \<Longrightarrow> \<not> turn_stop (ir_readings e (sensor_reads w)) \<Longrightarrow>
   turn_loop e c rid start w =
     turn_loop e c rid start (sleep 50 (w\<lparr>sensor_reads := Suc (sensor_reads w)\<rparr>))"
  by (subst turn_loop.simps) (simp add: Let_def read_ir_sensors_def)

lemma turn_loop_cases_induct [case_names timeout stop step]:
  fixes e :: env and w :: world
  assumes "\<And>w. \<not> clock w - start < turn_timeout \<Longrightarrow> P w"
    and "\<And>w. clock w - start < turn_timeout \<Longrightarrow>
           turn_stop (ir_readings e (sensor_reads w)) \<Longrightarrow> P w"
    and "\<And>w. clock w - start < turn_timeout \<Longrightarrow>
           \<not> turn_stop (ir_readings e (sensor_reads w)) \<Longrightarrow>
           P (sleep 50 (w\<lparr>sensor_reads := Suc (sensor_reads w)\<rparr>)) \<Longrightarrow> P w"
  shows "P w"
proof (induction "turn_timeout + start - clock w" arbitrary: w rule: less_induct)
  case less
  show ?case
  proof (cases "clock w - start < turn_timeout")
    case False
    then show ?thesis by (rule assms(1))
  next
    case T: True
    show ?thesis
    proof (cases "turn_stop (ir_readings e (sensor_reads w))")
      case True
      with T show ?thesis by (rule assms(2))
    next
      case False
      show ?thesis
        by (rule assms(3)[OF T False], rule less) (use T in \<open>simp add: sleep_def\<close>)
    qed
  qed
qed

lemma turn_loop_frame:
  "current_node (snd (turn_loop e c rid start w)) = current_node w \<and>
   serial_reads (snd (turn_loop e c rid start w)) = serial_reads w \<and>
   processing (snd (turn_loop e c rid start w)) = processing w \<and>
   carts (snd (turn_loop e c rid start w)) = carts w"
proof (induction w rule: turn_loop_cases_induct[where e=e and start=start])
  case (timeout w)
  then show ?case by (simp add: turn_loop_timeout ops)
next
  case (stop w)
  then show ?case by (simp add: turn_loop_stop ops)
next
  case (step w)
  then show ?case by (simp add: turn_loop_step ops)
qed



lemma turn_loop_fail:
  "\<not> fst (turn_loop e c rid start w) \<Longrightarrow>
     statuses (snd (turn_loop e c rid start w)) = statuses w @ [(rid, ''error:turn_timeout:'' @ c)] \<and>
     clock (snd (turn_loop e c rid start w)) \<le> max (clock w) (start + turn_timeout + 49)"
proof (induction w rule: turn_loop_cases_induct[where e=e and start=start])
  case (timeout w)
  then show ?case by (simp add: turn_loop_timeout ops)
next
  case (stop w)
  then show ?case by (simp add: turn_loop_stop ops)
next
  case (step w)
  then show ?case by (auto simp add: turn_loop_step ops)
qed

lemma turn_loop_ok:
  "fst (turn_loop e c rid start w) \<Longrightarrow>
     statuses (snd (turn_loop e c rid start w)) = statuses w \<and>
     clock w + 1100 \<le> clock (snd (turn_loop e c rid start w)) \<and>
     sensor_reads w < sensor_reads (snd (turn_loop e c rid start w)) \<and>
     turn_stop (ir_readings e (sensor_reads (snd (turn_loop e c rid start w)) - 1))"
proof (induction w rule: turn_loop_cases_induct[where e=e and start=start])
  case (timeout w)
  then show ?case by (simp add: turn_loop_timeout ops)
next
  case (stop w)
  then show ?case by (simp add: turn_loop_stop ops)
next
  case (step w)
  then show ?case by (auto simp add: turn_loop_step ops)
qed

subsection \<open>execute\_simple\_turn\<close>

lemma execute_simple_turn_unfold:
  "execute_simple_turn e c rid w =
     turn_loop e c rid (clock w) (sleep 1500 (send_command c w))"
  by (simp add: execute_simple_turn_def Let_def send_command_def)

lemma execute_simple_turn_frame:
  "current_node (snd (execute_simple_turn e c rid w)) = current_node w \<and>
   serial_reads (snd (execute_simple_turn e c rid w)) = serial_reads w \<and>
   processing (snd (execute_simple_turn e c rid w)) = processing w \<and>
   carts (snd (execute_simple_turn e c rid w)) = carts w"
  by (simp add: execute_simple_turn_unfold turn_loop_frame ops)



lemma execute_simple_turn_fail:
  "\<not> fst (execute_simple_turn e c rid w) \<Longrightarrow>
     statuses (snd (execute_simple_turn e c rid w)) =
       statuses w @ [(rid, ''error:turn_timeout:'' @ c)] \<and>
     clock (snd (execute_simple_turn e c rid w)) \<le> clock w + turn_timeout + 49"
  using turn_loop_fail[of e c rid "clock w" "sleep 1500 (send_command c w)"]
  by (simp add: execute_simple_turn_unfold ops turn_timeout_def)

lemma execute_simple_turn_ok:
  "fst (execute_simple_turn e c rid w) \<Longrightarrow>
     statuses (snd (execute_simple_turn e c rid w)) = statuses w \<and>
     clock w + 2600 \<le> clock (snd (execute_simple_turn e c rid w)) \<and>
     sensor_reads w < sensor_reads (snd (execute_simple_turn e c rid w)) \<and>
     turn_stop (ir_readings e (sensor_reads (snd (execute_simple_turn e c rid w)) - 1))"
  using turn_loop_ok[of e c rid "clock w" "sleep 1500 (send_command c w)"]
  by (simp add: execute_simple_turn_unfold ops)

subsection \<open>The correction loop, one iteration at a time\<close>

lemma nav_loop_timeout:
  "\<not> clock w - start < navigation_timeout \<Longrightarrow>
   nav_loop e lf d rid u start lc w =
     (False, update_trolley_status rid (''error:nav_timeout:'' @ current_node w @ ''->'' @ d)
               (send_command CMD_STOP w))"
  by (subst nav_loop.simps) simp

lemma nav_loop_match:
  "clock w - start < navigation_timeout \<Longrightarrow>
   rfid_uid (serial_lines e (serial_reads w)) = Some u \<Longrightarrow>
   nav_loop e lf d rid u start lc w =
     (True, sleep 500 (update_trolley_status rid (''arrived_at:'' @ d)
                        (w\<lparr>serial_reads := Suc (serial_reads w), current_node := d\<rparr>)))"
  by (subst nav_loop.simps) (simp add: Let_def receive_line_def)

lemma nav_loop_mismatch:
  "clock w - start < navigation_timeout \<Longrightarrow>
   rfid_uid (serial_lines e (serial_reads w)) = Some r \<Longrightarrow> r \<noteq> u \<Longrightarrow>
   nav_loop e lf d rid u start lc w =
     nav_loop e lf d rid u start CMD_FORWARD
       (sleep 300 (send_command CMD_FORWARD (w\<lparr>serial_reads := Suc (serial_reads w)\<rparr>)))"
  by (subst nav_loop.simps) (simp add: Let_def receive_line_def)

lemma nav_loop_send:
  "clock w - start < navigation_timeout \<Longrightarrow>
   rfid_uid (serial_lines e (serial_reads w)) = None \<Longrightarrow>
   required_command (get_state_of lf (ir_readings e (sensor_reads w))) lc \<noteq> lc \<Longrightarrow>
   nav_loop e lf d rid u start lc w =
     nav_loop e lf d rid u start
       (required_command (get_state_of lf (ir_readings e (sensor_reads w))) lc)
       (sleep 50 (send_command (required_command (get_state_of lf (ir_readings e (sensor_reads w))) lc)
          (w\<lparr>serial_reads := Suc (serial_reads w), sensor_reads := Suc (sensor_reads w)\<rparr>)))"
  by (subst nav_loop.simps) (simp add: Let_def receive_line_def read_ir_sensors_def)

lemma nav_loop_keep:
  "clock w - start < navigation_timeout \<Longrightarrow>
   rfid_uid (serial_lines e (serial_reads w)) = None \<Longrightarrow>
   required_command (get_state_of lf (ir_readings e (sensor_reads w))) lc = lc \<Longrightarrow>
   nav_loop e lf d rid u start lc w =
     nav_loop e lf d rid u start lc
       (sleep 50 (w\<lparr>serial_reads := Suc (serial_reads w), sensor_reads := Suc (sensor_reads w)\<rparr>))"
  by (subst nav_loop.simps) (simp add: Let_def receive_line_def read_ir_sensors_def)

lemma nav_loop_cases_induct [case_names timeout match mismatch send keep]:
  fixes e :: env and w :: world and lf :: "int \<Rightarrow> int \<Rightarrow> int \<Rightarrow> line_state" and u :: string
  assumes "\<And>lc w. \<not> clock w - start < navigation_timeout \<Longrightarrow> P lc w"
    and "\<And>lc w. clock w - start < navigation_timeout \<Longrightarrow>
           rfid_uid (serial_lines e (serial_reads w)) = Some u \<Longrightarrow> P lc w"
    and "\<And>lc w r. clock w - start < navigation_timeout \<Longrightarrow>
           rfid_uid (serial_lines e (serial_reads w)) = Some r \<Longrightarrow> r \<noteq> u \<Longrightarrow>
           P CMD_FORWARD
             (sleep 300 (send_command CMD_FORWARD (w\<lparr>serial_reads := Suc (serial_reads w)\<rparr>))) \<Longrightarrow>
           P lc w"
    and "\<And>lc w rq. clock w - start < navigation_timeout \<Longrightarrow>
           rfid_uid (serial_lines e (serial_reads w)) = None \<Longrightarrow>
           rq = required_command (get_state_of lf (ir_readings e (sensor_reads w))) lc \<Longrightarrow>
           rq \<noteq> lc \<Longrightarrow>
           P rq (sleep 50 (send_command rq
                  (w\<lparr>serial_reads := Suc (serial_reads w), sensor_reads := Suc (sensor_reads w)\<rparr>))) \<Longrightarrow>
           P lc w"
    and "\<And>lc w. clock w - start < navigation_timeout \<Longrightarrow>
           rfid_uid (serial_lines e (serial_reads w)) = None \<Longrightarrow>
           required_command (get_state_of lf (ir_readings e (sensor_reads w))) lc = lc \<Longrightarrow>
           P lc (sleep 50 (w\<lparr>serial_reads := Suc (serial_reads w), sensor_reads := Suc (sensor_reads w)\<rparr>)) \<Longrightarrow>
           P lc w"
  shows "P lc w"
proof (induction "navigation_timeout + start - clock w" arbitrary: lc w rule: less_induct)
  case less
  show ?case
  proof (cases "clock w - start < navigation_timeout")
    case False
    then show ?thesis by (rule assms(1))
  next
    case T: True
    show ?thesis
    proof (cases "rfid_uid (serial_lines e (serial_reads w))")
      case (Some r)
      show ?thesis
      proof (cases "r = u")
        case True
        with T Some show ?thesis by (intro assms(2)) simp_all
      next
        case False
        show ?thesis
          by (rule assms(3)[OF T Some False], rule less)
             (use T in \<open>simp add: sleep_def send_command_def\<close>)
      qed
    next
      case None
      show ?thesis
      proof (cases "required_command (get_state_of lf (ir_readings e (sensor_reads w))) lc = lc")
        case True
        show ?thesis
          by (rule assms(5)[OF T None True], rule less)
             (use T in \<open>simp add: sleep_def\<close>)
      next
        case False
        show ?thesis
          by (rule assms(4)[OF T None refl False], rule less)
             (use T in \<open>simp add: sleep_def send_command_def\<close>)
      qed
    qed
  qed
qed

lemma nav_loop_current_node:
  "current_node (snd (nav_loop e lf d rid u start lc w)) =
     (if fst (nav_loop e lf d rid u start lc w) then d else current_node w)"
proof (induction lc w rule: nav_loop_cases_induct[where e=e and lf=lf and u=u and start=start])
  case (timeout lc w)
  then show ?case by (simp add: nav_loop_timeout ops)
next
  case (match lc w)
  then show ?case by (simp add: nav_loop_match ops)
next
  case (mismatch lc w r)
  then show ?case by (simp add: nav_loop_mismatch ops)
next
  case (send lc w rq)
  then show ?case by (simp add: nav_loop_send ops)
next
  case (keep lc w)
  then show ?case by (simp add: nav_loop_keep ops)
qed

lemma nav_loop_reads_mono:
  "serial_reads w \<le> serial_reads (snd (nav_loop e lf d rid u start lc w)) \<and>
   sensor_reads w \<le> sensor_reads (snd (nav_loop e lf d rid u start lc w))"
proof (induction lc w rule: nav_loop_cases_induct[where e=e and lf=lf and u=u and start=start])
  case (timeout lc w)
  then show ?case by (simp add: nav_loop_timeout ops)
next
  case (match lc w)
  then show ?case by (simp add: nav_loop_match ops)
next
  case (mismatch lc w r)
  then show ?case by (simp add: nav_loop_mismatch ops)
next
  case (send lc w rq)
  then show ?case by (simp add: nav_loop_send ops)
next
  case (keep lc w)
  then show ?case by (simp add: nav_loop_keep ops)
qed

lemma uid_match_received_skip:
  assumes "rfid_uid (serial_lines e (serial_reads w)) \<noteq> Some u"
    and "serial_reads w1 = Suc (serial_reads w)"
  shows "uid_match_received e u w w' \<longleftrightarrow> uid_match_received e u w1 w'"
proof
  assume "uid_match_received e u w w'"
  then obtain k where k: "serial_reads w \<le> k" "k < serial_reads w'"
    "rfid_uid (serial_lines e k) = Some u"
    unfolding uid_match_received_def by blast
  with assms(1) have "k \<noteq> serial_reads w" by auto
  with k assms(2) have "serial_reads w1 \<le> k" by simp
  with k show "uid_match_received e u w1 w'"
    unfolding uid_match_received_def by blast
next
  assume "uid_match_received e u w1 w'"
  then obtain k where k: "serial_reads w1 \<le> k" "k < serial_reads w'"
    "rfid_uid (serial_lines e k) = Some u"
    unfolding uid_match_received_def by blast
  with assms(2) have "serial_reads w \<le> k" by simp
  with k show "uid_match_received e u w w'"
    unfolding uid_match_received_def by blast
qed

lemma nav_loop_ok_iff:
  "fst (nav_loop e lf d rid u start lc w) \<longleftrightarrow>
     uid_match_received e u w (snd (nav_loop e lf d rid u start lc w))"
proof (induction lc w rule: nav_loop_cases_induct[where e=e and lf=lf and u=u and start=start])
  case (timeout lc w)
  then show ?case by (simp add: nav_loop_timeout ops uid_match_received_def)
next
  case (match lc w)
  then have "uid_match_received e u w
      (sleep 500 (update_trolley_status rid (''arrived_at:'' @ d)
         (w\<lparr>serial_reads := Suc (serial_reads w), current_node := d\<rparr>)))"
    unfolding uid_match_received_def by (intro exI[of _ "serial_reads w"]) (simp add: ops)
  with match show ?case by (simp add: nav_loop_match)
next
  case (mismatch lc w r)
  then show ?case
    by (simp add: nav_loop_mismatch
        uid_match_received_skip[of e w u
          "sleep 300 (send_command CMD_FORWARD (w\<lparr>serial_reads := Suc (serial_reads w)\<rparr>))"] ops)
next
  case (send lc w rq)
  then show ?case
    by (simp add: nav_loop_send
        uid_match_received_skip[of e w u
          "sleep 50 (send_command rq
             (w\<lparr>serial_reads := Suc (serial_reads w), sensor_reads := Suc (sensor_reads w)\<rparr>))"] ops)
next
  case (keep lc w)
  then show ?case
    by (simp add: nav_loop_keep
        uid_match_received_skip[of e w u
          "sleep 50 (w\<lparr>serial_reads := Suc (serial_reads w), sensor_reads := Suc (sensor_reads w)\<rparr>)"] ops)
qed

lemma nav_loop_statuses:
  "statuses (snd (nav_loop e lf d rid u start lc w)) =
     statuses w @
     [(rid, if fst (nav_loop e lf d rid u start lc w) then ''arrived_at:'' @ d
            else ''error:nav_timeout:'' @ current_node w @ ''->'' @ d)]"
proof (induction lc w rule: nav_loop_cases_induct[where e=e and lf=lf and u=u and start=start])
  case (timeout lc w)
  then show ?case by (simp add: nav_loop_timeout ops)
next
  case (match lc w)
  then show ?case by (simp add: nav_loop_match ops)
next
  case (mismatch lc w r)
  then show ?case by (simp add: nav_loop_mismatch ops)
next
  case (send lc w rq)
  then show ?case by (simp add: nav_loop_send ops)
next
  case (keep lc w)
  then show ?case by (simp add: nav_loop_keep ops)
qed


subsection \<open>Command de-duplication\<close>

lemma required_command_idem:
  "required_command s (required_command s lc) = required_command s lc"
  by (simp add: required_command_def)

lemma correction_commands_settled:
  "required_command s lc = lc \<Longrightarrow> correction_commands lc (s # ss) = correction_commands lc ss"
  by simp

lemma correction_commands_count:
  "length (correction_commands lc ss) + repeats ss \<le> length ss \<and>
   (\<forall>s. required_command s lc = lc \<longrightarrow>
        length (correction_commands lc ss) + repeats (s # ss) \<le> length ss)"
proof (induction ss arbitrary: lc)
  case Nil
  show ?case by simp
next
  case (Cons t ss)
  let ?rq = "required_command t lc"
  have settled: "required_command t ?rq = ?rq" by (rule required_command_idem)
  from Cons[of ?rq] settled
  have a: "length (correction_commands ?rq ss) + repeats (t # ss) \<le> length ss" by blast
  have first: "length (correction_commands lc (t # ss)) + repeats (t # ss) \<le> length (t # ss)"
    using a by (cases "?rq = lc") (simp_all add: Let_def)
  have second: "length (correction_commands lc (t # ss)) + repeats (s # t # ss) \<le> length (t # ss)"
    if s: "required_command s lc = lc" for s
  proof (cases "s = t")
    case True
    with s have rq: "?rq = lc" by simp
    from a rq True show ?thesis by simp
  next
    case False
    with first show ?thesis by simp
  qed
  from first second show ?case by blast
qed

lemma correction_commands_distinct_adj:
  "distinct_adj (lc # correction_commands lc ss)"
proof (induction ss arbitrary: lc)
  case Nil
  show ?case by simp
next
  case (Cons t ss)
  show ?case
  proof (cases "required_command t lc = lc")
    case True
    with Cons[of lc] show ?thesis by simp
  next
    case False
    with Cons[of "required_command t lc"] show ?thesis by (simp add: Let_def)
  qed
qed

lemma polled_states_Cons:
  "sensor_reads w1 = Suc (sensor_reads w) \<Longrightarrow> sensor_reads w1 \<le> sensor_reads w' \<Longrightarrow>
   polled_states lf e w w' =
     get_state_of lf (ir_readings e (sensor_reads w)) # polled_states lf e w1 w'"
  by (simp add: polled_states_def upt_conv_Cons)

lemma nav_loop_sent_corrections:
  assumes quiet: "\<And>k. rfid_uid (serial_lines e k) = None"
  shows "sent (snd (nav_loop e lf d rid u start lc w)) =
           sent w @ correction_commands lc (polled_states lf e w (snd (nav_loop e lf d rid u start lc w)))
             @ [CMD_STOP]"
proof (induction lc w rule: nav_loop_cases_induct[where e=e and lf=lf and u=u and start=start])
  case (timeout lc w)
  then show ?case by (simp add: nav_loop_timeout ops polled_states_def)
next
  case (match lc w)
  with quiet show ?case by simp
next
  case (mismatch lc w r)
  with quiet show ?case by simp
next
  case (send lc w rq)
  let ?w1 = "sleep 50 (send_command rq
      (w\<lparr>serial_reads := Suc (serial_reads w), sensor_reads := Suc (sensor_reads w)\<rparr>))"
  have eq: "nav_loop e lf d rid u start lc w = nav_loop e lf d rid u start rq ?w1"
    using send(1-4) by (simp add: nav_loop_send)
  have "sensor_reads ?w1 \<le> sensor_reads (snd (nav_loop e lf d rid u start rq ?w1))"
    using nav_loop_reads_mono by blast
  then have ps: "polled_states lf e w (snd (nav_loop e lf d rid u start rq ?w1)) =
      get_state_of lf (ir_readings e (sensor_reads w)) #
      polled_states lf e ?w1 (snd (nav_loop e lf d rid u start rq ?w1))"
    by (intro polled_states_Cons) (simp_all add: ops)
  show ?case
    unfolding eq ps using send(3,4,5) by (simp add: Let_def ops)
next
  case (keep lc w)
  let ?w1 = "sleep 50 (w\<lparr>serial_reads := Suc (serial_reads w), sensor_reads := Suc (sensor_reads w)\<rparr>)"
  have eq: "nav_loop e lf d rid u start lc w = nav_loop e lf d rid u start lc ?w1"
    using keep(1-3) by (simp add: nav_loop_keep)
  have "sensor_reads ?w1 \<le> sensor_reads (snd (nav_loop e lf d rid u start lc ?w1))"
    using nav_loop_reads_mono by blast
  then have ps: "polled_states lf e w (snd (nav_loop e lf d rid u start lc ?w1)) =
      get_state_of lf (ir_readings e (sensor_reads w)) #
      polled_states lf e ?w1 (snd (nav_loop e lf d rid u start lc ?w1))"
    by (intro polled_states_Cons) (simp_all add: ops)
  show ?case
    unfolding eq ps using keep(3,4) by (simp add: Let_def ops)
qed

subsection \<open>navigate\_to\_node, path by path\<close>

lemma navigate_same:
  "current_node w = d \<Longrightarrow> navigate_to_node e lf d rid w = (True, w)"
  by (simp add: navigate_to_node_def)

lemma navigate_no_uid:
  "current_node w \<noteq> d \<Longrightarrow> get_expected_uid e d = None \<Longrightarrow>
   navigate_to_node e lf d rid w =
     (False, update_trolley_status rid (''error:no_uid:'' @ d)
               (update_trolley_status rid (''moving_to:'' @ d) w))"
  by (simp add: navigate_to_node_def Let_def)

lemma navigate_forward:
  "current_node w \<noteq> d \<Longrightarrow> get_expected_uid e d = Some u \<Longrightarrow>
   get_turn_for_transition (current_node w) d = None \<Longrightarrow>
   navigate_to_node e lf d rid w =
     nav_loop e lf d rid u (clock w) CMD_FORWARD
       (send_command CMD_FORWARD (update_trolley_status rid (''moving_to:'' @ d) w))"
  by (simp add: navigate_to_node_def Let_def ops)

lemma navigate_turn_fail:
  "current_node w \<noteq> d \<Longrightarrow> get_expected_uid e d = Some u \<Longrightarrow>
   get_turn_for_transition (current_node w) d = Some c \<Longrightarrow>
   \<not> fst (execute_simple_turn e c rid (update_trolley_status rid (''moving_to:'' @ d) w)) \<Longrightarrow>
   navigate_to_node e lf d rid w =
     (False, snd (execute_simple_turn e c rid (update_trolley_status rid (''moving_to:'' @ d) w)))"
  by (simp add: navigate_to_node_def Let_def ops)

lemma navigate_turn_ok:
  "current_node w \<noteq> d \<Longrightarrow> get_expected_uid e d = Some u \<Longrightarrow>
   get_turn_for_transition (current_node w) d = Some c \<Longrightarrow>
   fst (execute_simple_turn e c rid (update_trolley_status rid (''moving_to:'' @ d) w)) \<Longrightarrow>
   navigate_to_node e lf d rid w =
     nav_loop e lf d rid u
       (clock (snd (execute_simple_turn e c rid (update_trolley_status rid (''moving_to:'' @ d) w))))
       CMD_FORWARD
       (send_command CMD_FORWARD
          (snd (execute_simple_turn e c rid (update_trolley_status rid (''moving_to:'' @ d) w))))"
  by (simp add: navigate_to_node_def Let_def ops)

lemma uid_match_received_cong:
  "serial_reads w1 = serial_reads w \<Longrightarrow>
   uid_match_received e u w1 w' = uid_match_received e u w w'"
  by (simp add: uid_match_received_def)

lemma uid_match_received_none:
  "serial_reads w' = serial_reads w \<Longrightarrow> \<not> uid_match_received e u w w'"
  by (simp add: uid_match_received_def)

lemma navigate_current_node:
  assumes "get_expected_uid e d = Some u"
  shows "current_node (snd (navigate_to_node e lf d rid w)) =
           (if fst (navigate_to_node e lf d rid w) then d else current_node w)"
proof (cases "current_node w = d")
  case True
  then show ?thesis by (simp add: navigate_same)
next
  case ne: False
  show ?thesis
  proof (cases "get_turn_for_transition (current_node w) d")
    case None
    with ne assms show ?thesis
      by (simp add: navigate_forward nav_loop_current_node ops)
  next
    case (Some c)
    let ?t = "execute_simple_turn e c rid (update_trolley_status rid (''moving_to:'' @ d) w)"
    show ?thesis
    proof (cases "fst ?t")
      case False
      with ne assms Some show ?thesis
        by (simp add: navigate_turn_fail execute_simple_turn_frame ops)
    next
      case True
      with ne assms Some show ?thesis
        by (simp add: navigate_turn_ok nav_loop_current_node execute_simple_turn_frame ops)
    qed
  qed
qed

lemma navigate_ok_iff:
  assumes "get_expected_uid e d = Some u" and "current_node w \<noteq> d"
  shows "fst (navigate_to_node e lf d rid w) \<longleftrightarrow>
           uid_match_received e u w (snd (navigate_to_node e lf d rid w))"
proof (cases "get_turn_for_transition (current_node w) d")
  case None
  let ?w2 = "send_command CMD_FORWARD (update_trolley_status rid (''moving_to:'' @ d) w)"
  have "serial_reads ?w2 = serial_reads w" by (simp add: ops)
  from uid_match_received_cong[OF this] None assms show ?thesis
    by (simp add: navigate_forward nav_loop_ok_iff)
next
  case (Some c)
  let ?t = "execute_simple_turn e c rid (update_trolley_status rid (''moving_to:'' @ d) w)"
  have sr: "serial_reads (snd ?t) = serial_reads w"
    by (simp add: execute_simple_turn_frame ops)
  show ?thesis
  proof (cases "fst ?t")
    case False
    with assms Some sr show ?thesis
      by (simp add: navigate_turn_fail uid_match_received_none)
  next
    case True
    let ?w2 = "send_command CMD_FORWARD (snd ?t)"
    have "serial_reads ?w2 = serial_reads w" using sr by (simp add: ops)
    from uid_match_received_cong[OF this] True assms Some show ?thesis
      by (simp add: navigate_turn_ok nav_loop_ok_iff)
  qed
qed

subsection \<open>The reverse loop, one iteration at a time\<close>

lemma reverse_loop_timeout:
  "\<not> clock w - start < navigation_timeout \<Longrightarrow>
   reverse_loop e d rid u start w =
     (False, update_trolley_status rid (''error:reverse_timeout:'' @ current_node w @ ''->'' @ d)
               (send_command CMD_STOP w))"
  by (subst reverse_loop.simps) simp

lemma reverse_loop_match:
  "clock w - start < navigation_timeout \<Longrightarrow>
   rfid_uid (serial_lines e (serial_reads w)) = Some u \<Longrightarrow>
   reverse_loop e d rid u start w =
     (True, sleep 500 (update_trolley_status rid (''arrived_at:'' @ d)
                        ((send_command CMD_STOP (w\<lparr>serial_reads := Suc (serial_reads w)\<rparr>))
                           \<lparr>current_node := d\<rparr>)))"
  by (subst reverse_loop.simps) (simp add: Let_def receive_line_def)

lemma reverse_loop_mismatch:
  "clock w - start < navigation_timeout \<Longrightarrow>
   rfid_uid (serial_lines e (serial_reads w)) = Some r \<Longrightarrow> r \<noteq> u \<Longrightarrow>
   reverse_loop e d rid u start w =
     reverse_loop e d rid u start
       (sleep 50 (sleep 300 (send_command CMD_BACKWARD (w\<lparr>serial_reads := Suc (serial_reads w)\<rparr>))))"
  by (subst reverse_loop.simps) (simp add: Let_def receive_line_def)

lemma reverse_loop_quiet:
  "clock w - start < navigation_timeout \<Longrightarrow>
   rfid_uid (serial_lines e (serial_reads w)) = None \<Longrightarrow>
   reverse_loop e d rid u start w =
     reverse_loop e d rid u start (sleep 50 (w\<lparr>serial_reads := Suc (serial_reads w)\<rparr>))"
  by (subst reverse_loop.simps) (simp add: Let_def receive_line_def)

lemma reverse_loop_cases_induct [case_names timeout match mismatch quiet]:
  fixes e :: env and w :: world and u :: string
  assumes "\<And>w. \<not> clock w - start < navigation_timeout \<Longrightarrow> P w"
    and "\<And>w. clock w - start < navigation_timeout \<Longrightarrow>
           rfid_uid (serial_lines e (serial_reads w)) = Some u \<Longrightarrow> P w"
    and "\<And>w r. clock w - start < navigation_timeout \<Longrightarrow>
           rfid_uid (serial_lines e (serial_reads w)) = Some r \<Longrightarrow> r \<noteq> u \<Longrightarrow>
           P (sleep 50 (sleep 300 (send_command CMD_BACKWARD
                (w\<lparr>serial_reads := Suc (serial_reads w)\<rparr>)))) \<Longrightarrow>
           P w"
    and "\<And>w. clock w - start < navigation_timeout \<Longrightarrow>
           rfid_uid (serial_lines e (serial_reads w)) = None \<Longrightarrow>
           P (sleep 50 (w\<lparr>serial_reads := Suc (serial_reads w)\<rparr>)) \<Longrightarrow> P w"
  shows "P w"
proof (induction "navigation_timeout + start - clock w" arbitrary: w rule: less_induct)
  case less
  show ?case
  proof (cases "clock w - start < navigation_timeout")
    case False
    then show ?thesis by (rule assms(1))
  next
    case T: True
    show ?thesis
    proof (cases "rfid_uid (serial_lines e (serial_reads w))")
      case None
      show ?thesis
        by (rule assms(4)[OF T None], rule less) (use T in \<open>simp add: sleep_def\<close>)
    next
      case (Some r)
      show ?thesis
      proof (cases "r = u")
        case True
        with T Some show ?thesis by (intro assms(2)) simp_all
      next
        case False
        show ?thesis
          by (rule assms(3)[OF T Some False], rule less)
             (use T in \<open>simp add: sleep_def send_command_def\<close>)
      qed
    qed
  qed
qed

lemma reverse_loop_current_node:
  "current_node (snd (reverse_loop e d rid u start w)) =
     (if fst (reverse_loop e d rid u start w) then d else current_node w)"
proof (induction w rule: reverse_loop_cases_induct[where e=e and u=u and start=start])
  case (timeout w)
  then show ?case by (simp add: reverse_loop_timeout ops)
next
  case (match w)
  then show ?case by (simp add: reverse_loop_match ops)
next
  case (mismatch w r)
  then show ?case by (simp add: reverse_loop_mismatch ops)
next
  case (quiet w)
  then show ?case by (simp add: reverse_loop_quiet ops)
qed

lemma reverse_loop_ok_iff:
  "fst (reverse_loop e d rid u start w) \<longleftrightarrow>
     uid_match_received e u w (snd (reverse_loop e d rid u start w))"
proof (induction w rule: reverse_loop_cases_induct[where e=e and u=u and start=start])
  case (timeout w)
  then show ?case by (simp add: reverse_loop_timeout ops uid_match_received_def)
next
  case (match w)
  then have "uid_match_received e u w
      (sleep 500 (update_trolley_status rid (''arrived_at:'' @ d)
         ((send_command CMD_STOP (w\<lparr>serial_reads := Suc (serial_reads w)\<rparr>))\<lparr>current_node := d\<rparr>)))"
    unfolding uid_match_received_def by (intro exI[of _ "serial_reads w"]) (simp add: ops)
  with match show ?case by (simp add: reverse_loop_match)
next
  case (mismatch w r)
  then show ?case
    by (simp add: reverse_loop_mismatch
        uid_match_received_skip[of e w u
          "sleep 50 (sleep 300 (send_command CMD_BACKWARD (w\<lparr>serial_reads := Suc (serial_reads w)\<rparr>)))"]
        ops)
next
  case (quiet w)
  then show ?case
    by (simp add: reverse_loop_quiet
        uid_match_received_skip[of e w u
          "sleep 50 (w\<lparr>serial_reads := Suc (serial_reads w)\<rparr>)"] ops)
qed

lemma reverse_until_node_refused:
  "current_node w = ''home'' \<or> d = ''home'' \<Longrightarrow> reverse_until_node e d rid w = (False, w)"
  by (simp add: reverse_until_node_def)

lemma reverse_until_node_no_uid:
  "\<not> (current_node w = ''home'' \<or> d = ''home'') \<Longrightarrow> get_expected_uid e d = None \<Longrightarrow>
   reverse_until_node e d rid w =
     (False, update_trolley_status rid (''error:no_uid:'' @ d)
               (update_trolley_status rid (''reversing_to:'' @ d) w))"
  by (simp add: reverse_until_node_def Let_def)

lemma reverse_until_node_loop:
  "\<not> (current_node w = ''home'' \<or> d = ''home'') \<Longrightarrow> get_expected_uid e d = Some u \<Longrightarrow>
   reverse_until_node e d rid w =
     reverse_loop e d rid u (clock w)
       (send_command CMD_BACKWARD (update_trolley_status rid (''reversing_to:'' @ d) w))"
  by (simp add: reverse_until_node_def Let_def ops)

lemma reverse_current_node:
  assumes "get_expected_uid e d = Some u"
  shows "current_node (snd (reverse_until_node e d rid w)) =
           (if fst (reverse_until_node e d rid w) then d else current_node w)"
proof (cases "current_node w = ''home'' \<or> d = ''home''")
  case True
  then show ?thesis by (simp add: reverse_until_node_refused)
next
  case False
  with assms show ?thesis
    by (simp add: reverse_until_node_loop reverse_loop_current_node ops)
qed

lemma reverse_ok_iff:
  assumes "get_expected_uid e d = Some u"
  shows "fst (reverse_until_node e d rid w) \<longleftrightarrow>
           uid_match_received e u w (snd (reverse_until_node e d rid w))"
proof (cases "current_node w = ''home'' \<or> d = ''home''")
  case True
  then show ?thesis by (simp add: reverse_until_node_refused uid_match_received_none)
next
  case False
  let ?w2 = "send_command CMD_BACKWARD (update_trolley_status rid (''reversing_to:'' @ d) w)"
  have "serial_reads ?w2 = serial_reads w" by (simp add: ops)
  from uid_match_received_cong[OF this] False assms show ?thesis
    by (simp add: reverse_until_node_loop reverse_loop_ok_iff)
qed

subsection \<open>Runs without RFID lines\<close>

lemma nav_loop_quiet_fails:
  assumes quiet: "\<And>k. rfid_uid (serial_lines e k) \<noteq> Some u"
  shows "\<not> fst (nav_loop e lf d rid u start lc w)"
  using quiet by (simp add: nav_loop_ok_iff uid_match_received_def)

lemma polls_step:
  fixes c s :: nat
  assumes "c - s < 60000"
  shows "(s + 60000 - c + 49) div 50 = Suc ((s + 60000 - (c + 50) + 49) div 50)"
proof -
  define x where "x = s + 60000 - c"
  from assms have x: "0 < x" unfolding x_def by linarith
  have r: "s + 60000 - (c + 50) = x - 50" unfolding x_def by linarith
  show ?thesis
  proof (cases "50 \<le> x")
    case True
    then obtain y where y: "x = y + 50" by (metis le_add_diff_inverse2)
    show ?thesis unfolding r x_def[symmetric] y by simp
  next
    case False
    with x have "(x + 49) div 50 = 1" by simp
    moreover from False have "(x - 50 + 49) div 50 = 0" by simp
    ultimately show ?thesis unfolding r x_def[symmetric] by simp
  qed
qed
lemma polls_done:
  fixes c s :: nat
  assumes "\<not> c - s < 60000"
  shows "(s + 60000 - c + 49) div 50 = 0"
  using assms by simp

lemma nav_loop_quiet_polls:
  assumes quiet: "\<And>k. rfid_uid (serial_lines e k) = None"
  shows "sensor_reads (snd (nav_loop e lf d rid u start lc w)) =
           sensor_reads w + (start + navigation_timeout - clock w + 49) div 50"
proof (induction lc w rule: nav_loop_cases_induct[where e=e and lf=lf and u=u and start=start])
  case (timeout lc w)
  then have "(start + navigation_timeout - clock w + 49) div 50 = 0"
    unfolding navigation_timeout_def by (rule polls_done)
  with timeout show ?case by (simp add: nav_loop_timeout ops)
next
  case (match lc w)
  with quiet show ?case by simp
next
  case (mismatch lc w r)
  with quiet show ?case by simp
next
  case (send lc w rq)
  have "(start + navigation_timeout - clock w + 49) div 50 =
        Suc ((start + navigation_timeout - (clock w + 50) + 49) div 50)"
    using send(1) unfolding navigation_timeout_def by (rule polls_step)
  with send show ?case by (simp add: nav_loop_send ops)
next
  case (keep lc w)
  have "(start + navigation_timeout - clock w + 49) div 50 =
        Suc ((start + navigation_timeout - (clock w + 50) + 49) div 50)"
    using keep(1) unfolding navigation_timeout_def by (rule polls_step)
  with keep show ?case by (simp add: nav_loop_keep ops)
qed

lemma correction_commands_none:
  "(\<And>s. s \<in> set ss \<Longrightarrow> required_command s lc = lc) \<Longrightarrow> correction_commands lc ss = []"
  by (induction ss) simp_all

lemma repeats_replicate: "repeats (replicate (Suc n) s) = n"
  by (induction n) simp_all

lemma polled_states_length:
  "length (polled_states lf e w w') = sensor_reads w' - sensor_reads w"
  by (simp add: polled_states_def)

subsection \<open>The status messages of a navigation call\<close>

lemma navigate_statuses:
  "\<exists>new. statuses (snd (navigate_to_node e lf d rid w)) = statuses w @ new \<and>
         ''error:line_lost'' \<notin> snd ` set new"
proof (cases "current_node w = d")
  case True
  then show ?thesis by (simp add: navigate_same)
next
  case ne: False
  show ?thesis
  proof (cases "get_expected_uid e d")
    case None
    with ne show ?thesis by (simp add: navigate_no_uid ops)
  next
    case (Some u)
    show ?thesis
    proof (cases "get_turn_for_transition (current_node w) d")
      case None
      with ne Some show ?thesis
        by (simp add: navigate_forward nav_loop_statuses ops)
    next
      case c: (Some c)
      let ?t = "execute_simple_turn e c rid (update_trolley_status rid (''moving_to:'' @ d) w)"
      show ?thesis
      proof (cases "fst ?t")
        case False
        with ne Some c show ?thesis
          by (simp add: navigate_turn_fail execute_simple_turn_fail ops)
      next
        case True
        with ne Some c show ?thesis
          by (simp add: navigate_turn_ok nav_loop_statuses execute_simple_turn_ok ops)
      qed
    qed
  qed
qed

subsection \<open>Exact runs\<close>






section \<open>The claims\<close>

subsection \<open>The classifier\<close>

text \<open>
  C2, as the specification states it: the all-light reading and the reading
  \<open>(0, 1, 0)\<close> are classified as lost. The classifier returns \<open>LINE_CENTERED\<close> on both.
\<close>

theorem get_state_all_light_not_lost:
  "get_state 1 1 1 = LINE_CENTERED \<and> get_state 1 1 1 \<noteq> LINE_LOST \<and>
   get_state 0 1 0 = LINE_CENTERED \<and> get_state 0 1 0 \<noteq> LINE_LOST"
  by (simp add: get_state_def truthy_def)

text \<open>
  C2, amended: the classifier maps the all-light reading to \<open>LINE_CENTERED\<close>, maps the
  reading \<open>(0, 1, 0)\<close>, which none of its tests accepts, to \<open>LINE_CENTERED\<close> by the final
  default, and returns \<open>LINE_LOST\<close> on no reading at all: its result is always one of
  the other three states.
\<close>

theorem get_state_never_lost:
  "get_state 1 1 1 = LINE_CENTERED \<and>
   get_state 0 1 0 = LINE_CENTERED \<and>
   get_state l c r \<noteq> LINE_LOST \<and>
   get_state l c r \<in> {LINE_CENTERED, LINE_SLIGHT_LEFT, LINE_SLIGHT_RIGHT}"
  by (simp add: get_state_def truthy_def)

subsection \<open>The position advances on a UID match only\<close>

text \<open>
  C1: when the registry resolves the expected UID of the destination, \<open>current_node\<close>
  after \<open>navigate_to_node\<close>, and after \<open>reverse_until_node\<close>, is the destination if one of
  the serial lines read during the call is an RFID line carrying the expected UID, and is
  what it was before the call otherwise. Such a line is read exactly when the call returns
  \<open>True\<close> (for \<open>navigate_to_node\<close>: and the trolley was not at the destination already, in
  which case nothing is read). In particular, when no serial line ever carries the expected
  UID, \<open>current_node\<close> is unchanged and the call returns \<open>False\<close>.
\<close>

theorem current_node_updated_iff_uid_match:
  assumes "get_expected_uid e d = Some u"
  shows "current_node (snd (navigate_to_node e lf d rid w)) =
           (if uid_match_received e u w (snd (navigate_to_node e lf d rid w)) then d
            else current_node w) \<and>
         current_node (snd (reverse_until_node e d rid w)) =
           (if uid_match_received e u w (snd (reverse_until_node e d rid w)) then d
            else current_node w) \<and>
         (uid_match_received e u w (snd (navigate_to_node e lf d rid w)) \<longleftrightarrow>
            fst (navigate_to_node e lf d rid w) \<and> current_node w \<noteq> d) \<and>
         (uid_match_received e u w (snd (reverse_until_node e d rid w)) \<longleftrightarrow>
            fst (reverse_until_node e d rid w)) \<and>
         ((\<forall>k. rfid_uid (serial_lines e k) \<noteq> Some u) \<longrightarrow>
            current_node (snd (navigate_to_node e lf d rid w)) = current_node w \<and>
            current_node (snd (reverse_until_node e d rid w)) = current_node w \<and>
            \<not> fst (reverse_until_node e d rid w) \<and>
            (current_node w \<noteq> d \<longrightarrow> \<not> fst (navigate_to_node e lf d rid w)))"
proof -
  let ?n = "navigate_to_node e lf d rid w" and ?r = "reverse_until_node e d rid w"
  have nm: "uid_match_received e u w (snd ?n) \<longleftrightarrow> fst ?n \<and> current_node w \<noteq> d"
  proof (cases "current_node w = d")
    case True
    then show ?thesis by (simp add: navigate_same uid_match_received_none)
  next
    case False
    with navigate_ok_iff[OF assms False, of lf rid] show ?thesis by simp
  qed
  have rm: "uid_match_received e u w (snd ?r) \<longleftrightarrow> fst ?r"
    using reverse_ok_iff[OF assms, of rid w] by simp
  have nc: "current_node (snd ?n) = (if uid_match_received e u w (snd ?n) then d else current_node w)"
    using navigate_current_node[OF assms, of lf rid w] nm by auto
  have rc: "current_node (snd ?r) = (if uid_match_received e u w (snd ?r) then d else current_node w)"
    using reverse_current_node[OF assms, of rid w] rm by auto
  have none: "current_node (snd ?n) = current_node w \<and> current_node (snd ?r) = current_node w \<and>
      \<not> fst ?r \<and> (current_node w \<noteq> d \<longrightarrow> \<not> fst ?n)"
    if q: "\<forall>k. rfid_uid (serial_lines e k) \<noteq> Some u"
  proof -
    from q have no: "\<not> uid_match_received e u w w'" for w'
      by (simp add: uid_match_received_def)
    from no[of "snd ?n"] no[of "snd ?r"] nm rm nc rc show ?thesis by auto
  qed
  from nc rc nm rm none show ?thesis by blast
qed

lemma registry1_RFJ1: "get_expected_uid env_all_light ''RFJ1'' = Some ''04a1b2''"
  by (simp add: get_expected_uid_def env_all_light_def registry1_def lower_def lower_char_def)

theorem current_node_updated_iff_uid_match_witness:
  "get_expected_uid env_all_light ''RFJ1'' = Some ''04a1b2'' \<and>
   current_node world0 \<noteq> ''RFJ1'' \<and>
   \<not> fst (navigate_to_node env_all_light get_state ''RFJ1'' ''req'' world0) \<and>
   current_node (snd (navigate_to_node env_all_light get_state ''RFJ1'' ''req'' world0)) = ''home''"
proof -
  have ne: "current_node world0 \<noteq> ''RFJ1''" by (simp add: world0_def)
  have q: "\<forall>k. rfid_uid (serial_lines env_all_light k) \<noteq> Some ''04a1b2''"
    by (simp add: env_all_light_def rfid_uid_def)
  from current_node_updated_iff_uid_match[OF registry1_RFJ1, where lf=get_state and rid="''req''"
      and w=world0]
    q ne
  have "\<not> fst (navigate_to_node env_all_light get_state ''RFJ1'' ''req'' world0) \<and>
   current_node (snd (navigate_to_node env_all_light get_state ''RFJ1'' ''req'' world0)) =
     current_node world0"
    by blast
  with registry1_RFJ1 ne show ?thesis by (simp add: world0_def)
qed

subsection \<open>The turn executor\<close>




subsection \<open>Timeouts\<close>






subsection \<open>A lost line\<close>

text \<open>
  C4, as the specification states it: on a \<open>LINE_LOST\<close> verdict the navigator stops,
  reports \<open>error:line_lost\<close> and returns failure. With a line follower that reports
  \<open>LINE_LOST\<close> on every reading, a navigation from \<open>home\<close> to \<open>RFJ1\<close> polls 1200
  readings, sends nothing after the initial forward command until the stop command of the
  timeout, and reports the timeout, not a lost line.
\<close>

theorem lost_line_runs_into_timeout:
  "get_state_of lf_lost (ir_readings env_all_light 0) = LINE_LOST \<and>
   sensor_reads (snd (navigate_to_node env_all_light lf_lost ''RFJ1'' ''req'' world0)) = 1200 \<and>
   sent (snd (navigate_to_node env_all_light lf_lost ''RFJ1'' ''req'' world0)) =
     [CMD_FORWARD, CMD_STOP] \<and>
   statuses (snd (navigate_to_node env_all_light lf_lost ''RFJ1'' ''req'' world0)) =
     [(''req'', ''moving_to:RFJ1''), (''req'', ''error:nav_timeout:home->RFJ1'')]"
proof -
  let ?w2 = "send_command CMD_FORWARD (update_trolley_status ''req'' (''moving_to:'' @ ''RFJ1'') world0)"
  let ?r = "nav_loop env_all_light lf_lost ''RFJ1'' ''req'' ''04a1b2'' (clock world0) CMD_FORWARD ?w2"
  have ne: "current_node world0 \<noteq> ''RFJ1''" by (simp add: world0_def)
  have g: "get_turn_for_transition (current_node world0) ''RFJ1'' = None"
    by (simp add: get_turn_for_transition_def world0_def startswith_def)
  have eq: "navigate_to_node env_all_light lf_lost ''RFJ1'' ''req'' world0 = ?r"
    using ne registry1_RFJ1 g by (rule navigate_forward)
  have quiet: "rfid_uid (serial_lines env_all_light k) = None" for k
    by (simp add: env_all_light_def rfid_uid_def)
  have f: "\<not> fst ?r" by (rule nav_loop_quiet_fails) (simp add: quiet)
  have polls: "sensor_reads (snd ?r) = 1200"
    by (simp add: nav_loop_quiet_polls[OF quiet] ops world0_def navigation_timeout_def)
  have "correction_commands CMD_FORWARD (polled_states lf_lost env_all_light ?w2 (snd ?r)) = []"
    by (rule correction_commands_none)
       (auto simp: polled_states_def get_state_of_def lf_lost_def required_command_def
          env_all_light_def)
  then have s: "sent (snd ?r) = [CMD_FORWARD, CMD_STOP]"
    by (simp add: nav_loop_sent_corrections[OF quiet] ops world0_def)
  have st: "statuses (snd ?r) =
      [(''req'', ''moving_to:RFJ1''), (''req'', ''error:nav_timeout:home->RFJ1'')]"
    using f by (simp add: nav_loop_statuses ops world0_def)
  have "get_state_of lf_lost (ir_readings env_all_light 0) = LINE_LOST"
    by (simp add: get_state_of_def lf_lost_def env_all_light_def)
  with polls s st show ?thesis unfolding eq by simp
qed

text \<open>
  C4, amended: during a \<open>navigate_to_node\<close> correction loop, whenever the classifier
  reports \<open>LINE_LOST\<close> on the current sensor reading, the navigator sends no command and
  reports no status: the iteration only sleeps 50 ms and the loop goes on with the
  previous command. No call of \<open>navigate_to_node\<close> reports \<open>error:line_lost\<close>, and the
  classifier of the repository never reports \<open>LINE_LOST\<close>.
\<close>

theorem lost_line_is_not_handled:
  "(clock w - start < navigation_timeout \<and>
    rfid_uid (serial_lines e (serial_reads w)) = None \<and>
    get_state_of lf (ir_readings e (sensor_reads w)) = LINE_LOST \<longrightarrow>
      nav_loop e lf d rid u start lc w =
        nav_loop e lf d rid u start lc
          (sleep 50 (w\<lparr>serial_reads := Suc (serial_reads w),
                        sensor_reads := Suc (sensor_reads w)\<rparr>))) \<and>
   (\<exists>new. statuses (snd (navigate_to_node e lf d rid w)) = statuses w @ new \<and>
          ''error:line_lost'' \<notin> snd ` set new) \<and>
   get_state_of get_state sensors \<noteq> LINE_LOST"
proof -
  have a: "nav_loop e lf d rid u start lc w =
        nav_loop e lf d rid u start lc
          (sleep 50 (w\<lparr>serial_reads := Suc (serial_reads w),
                        sensor_reads := Suc (sensor_reads w)\<rparr>))"
    if "clock w - start < navigation_timeout"
      "rfid_uid (serial_lines e (serial_reads w)) = None"
      "get_state_of lf (ir_readings e (sensor_reads w)) = LINE_LOST"
    using that by (intro nav_loop_keep) (simp_all add: required_command_def)
  have c: "get_state_of get_state sensors \<noteq> LINE_LOST"
    by (cases sensors) (simp add: get_state_of_def get_state_def truthy_def)
  from a navigate_statuses[of e lf d rid w] c show ?thesis by blast
qed

theorem lost_line_is_not_handled_witness:
  "nav_loop env_all_light lf_lost ''RFJ1'' ''req'' ''04a1b2'' 0 CMD_FORWARD world0 =
     nav_loop env_all_light lf_lost ''RFJ1'' ''req'' ''04a1b2'' 0 CMD_FORWARD
       (sleep 50 (world0\<lparr>serial_reads := Suc (serial_reads world0),
                         sensor_reads := Suc (sensor_reads world0)\<rparr>))"
proof -
  have "clock world0 - 0 < navigation_timeout"
    by (simp add: world0_def navigation_timeout_def)
  moreover have "rfid_uid (serial_lines env_all_light (serial_reads world0)) = None"
    by (simp add: env_all_light_def rfid_uid_def)
  moreover have "get_state_of lf_lost (ir_readings env_all_light (sensor_reads world0)) = LINE_LOST"
    by (simp add: get_state_of_def lf_lost_def env_all_light_def)
  ultimately show ?thesis
    using lost_line_is_not_handled[of world0 0 env_all_light lf_lost "''RFJ1''" "''req''"
        "''04a1b2''" CMD_FORWARD]
    by blast
qed

subsection \<open>Command de-duplication in the correction loop\<close>

text \<open>
  C7: an iteration of the correction loop that takes the line-correction branch (no RFID
  line was read) sends the required command if it differs from the last command sent and
  sends nothing otherwise, whatever the run. In a run in which no RFID line arrives, the
  commands sent are therefore those of steps 2 and 3 over the classifier outputs of the
  iterations, one output per iteration, followed by the stop command of the timeout; no
  two consecutive commands are equal, the first differing from the command sent before
  the loop; the number of commands sent plus the number of iterations that repeat the
  state of the iteration before is at most the number of iterations, hence strictly fewer
  commands than iterations as soon as a state repeats.
\<close>

theorem steering_commands_deduplicated:
  "(clock w - start < navigation_timeout \<and> rfid_uid (serial_lines e (serial_reads w)) = None \<longrightarrow>
      nav_loop e lf d rid u start lc w =
        (let required = required_command (get_state_of lf (ir_readings e (sensor_reads w))) lc;
             w2 = w\<lparr>serial_reads := Suc (serial_reads w), sensor_reads := Suc (sensor_reads w)\<rparr>
         in nav_loop e lf d rid u start required
              (sleep 50 (if required \<noteq> lc then send_command required w2 else w2)))) \<and>
   ((\<forall>k. rfid_uid (serial_lines e k) = None) \<longrightarrow>
         sent (snd (nav_loop e lf d rid u start lc w)) =
           sent w @
           correction_commands lc (polled_states lf e w (snd (nav_loop e lf d rid u start lc w))) @
           [CMD_STOP] \<and>
         length (polled_states lf e w (snd (nav_loop e lf d rid u start lc w))) =
           sensor_reads (snd (nav_loop e lf d rid u start lc w)) - sensor_reads w \<and>
         distinct_adj
           (lc # correction_commands lc
                   (polled_states lf e w (snd (nav_loop e lf d rid u start lc w)))) \<and>
         length (correction_commands lc
                   (polled_states lf e w (snd (nav_loop e lf d rid u start lc w)))) +
           repeats (polled_states lf e w (snd (nav_loop e lf d rid u start lc w)))
           \<le> length (polled_states lf e w (snd (nav_loop e lf d rid u start lc w))) \<and>
         (0 < repeats (polled_states lf e w (snd (nav_loop e lf d rid u start lc w))) \<longrightarrow>
            length (correction_commands lc
                      (polled_states lf e w (snd (nav_loop e lf d rid u start lc w))))
            < length (polled_states lf e w (snd (nav_loop e lf d rid u start lc w)))))"
proof -
  let ?ss = "polled_states lf e w (snd (nav_loop e lf d rid u start lc w))"
  let ?rq = "required_command (get_state_of lf (ir_readings e (sensor_reads w))) lc"
  have step: "nav_loop e lf d rid u start lc w =
        (let required = ?rq;
             w2 = w\<lparr>serial_reads := Suc (serial_reads w), sensor_reads := Suc (sensor_reads w)\<rparr>
         in nav_loop e lf d rid u start required
              (sleep 50 (if required \<noteq> lc then send_command required w2 else w2)))"
    if t: "clock w - start < navigation_timeout"
      and n: "rfid_uid (serial_lines e (serial_reads w)) = None"
  proof (cases "?rq = lc")
    case True
    with nav_loop_keep[OF t n True] show ?thesis by (simp add: Let_def)
  next
    case False
    with nav_loop_send[OF t n False] show ?thesis by (simp add: Let_def)
  qed
  have run: "sent (snd (nav_loop e lf d rid u start lc w)) =
      sent w @ correction_commands lc ?ss @ [CMD_STOP] \<and>
      length ?ss = sensor_reads (snd (nav_loop e lf d rid u start lc w)) - sensor_reads w \<and>
      distinct_adj (lc # correction_commands lc ?ss) \<and>
      length (correction_commands lc ?ss) + repeats ?ss \<le> length ?ss \<and>
      (0 < repeats ?ss \<longrightarrow> length (correction_commands lc ?ss) < length ?ss)"
    if q: "\<forall>k. rfid_uid (serial_lines e k) = None"
  proof -
    from q have quiet: "rfid_uid (serial_lines e k) = None" for k by simp
    have a: "sent (snd (nav_loop e lf d rid u start lc w)) =
        sent w @ correction_commands lc ?ss @ [CMD_STOP]"
      by (rule nav_loop_sent_corrections[OF quiet])
    have b: "length ?ss = sensor_reads (snd (nav_loop e lf d rid u start lc w)) - sensor_reads w"
      by (rule polled_states_length)
    have c: "distinct_adj (lc # correction_commands lc ?ss)"
      by (rule correction_commands_distinct_adj)
    have d: "length (correction_commands lc ?ss) + repeats ?ss \<le> length ?ss"
      using correction_commands_count[of lc ?ss] by blast
    then have e: "0 < repeats ?ss \<longrightarrow> length (correction_commands lc ?ss) < length ?ss"
      by linarith
    from a b c d e show ?thesis by blast
  qed
  from step run show ?thesis by blast
qed

theorem steering_commands_deduplicated_witness:
  "(\<forall>k. rfid_uid (serial_lines env_100 k) = None) \<and>
   sent (snd (nav_loop env_100 get_state ''RFJ1'' ''req'' ''04a1b2'' 0 CMD_FORWARD world0)) =
     [CMD_SLIGHT_RIGHT, CMD_STOP] \<and>
   sensor_reads (snd (nav_loop env_100 get_state ''RFJ1'' ''req'' ''04a1b2'' 0 CMD_FORWARD world0))
     = 1200"
proof -
  let ?r = "nav_loop env_100 get_state ''RFJ1'' ''req'' ''04a1b2'' 0 CMD_FORWARD world0"
  have quiet: "\<forall>k. rfid_uid (serial_lines env_100 k) = None"
    by (simp add: env_100_def rfid_uid_def)
  then have q: "rfid_uid (serial_lines env_100 k) = None" for k by simp
  have polls: "sensor_reads (snd ?r) = 1200"
    by (simp add: nav_loop_quiet_polls[OF q] world0_def navigation_timeout_def)
  have st: "get_state_of get_state (ir_readings env_100 k) = LINE_SLIGHT_LEFT" for k
    by (simp add: env_100_def get_state_of_def get_state_def truthy_def)
  have ps: "polled_states get_state env_100 world0 (snd ?r) =
      LINE_SLIGHT_LEFT # replicate 1199 LINE_SLIGHT_LEFT"
    unfolding polled_states_def polls st
    by (simp add: world0_def map_replicate_const flip: replicate_Suc)
  have cc: "correction_commands CMD_SLIGHT_RIGHT (replicate 1199 LINE_SLIGHT_LEFT) = []"
    by (rule correction_commands_none) (simp add: required_command_def)
  from steering_commands_deduplicated[where e=env_100 and lf=get_state and d="''RFJ1''"
      and rid="''req''" and u="''04a1b2''" and start=0 and lc=CMD_FORWARD and w=world0] quiet
  have "sent (snd ?r) = sent world0 @
      correction_commands CMD_FORWARD (polled_states get_state env_100 world0 (snd ?r)) @ [CMD_STOP]"
    by blast
  then have "sent (snd ?r) = [CMD_SLIGHT_RIGHT, CMD_STOP]"
    unfolding ps by (simp add: required_command_def cc world0_def)
  with quiet polls show ?thesis by blast
qed

subsection \<open>The position and the node mapping\<close>

text \<open>
  C10, as the claim states it: \<open>current_node\<close> always holds a name of the node mapping.
  From \<open>pdt4\<close>, a name of the mapping, a navigation to \<open>RFJ4\<close>, a name the registry
  resolves and the mapping does not hold, ends at \<open>RFJ4\<close> when its tag is read.
\<close>

theorem current_node_leaves_node_mapping:
  "in_NODE_MAPPING (current_node world_pdt4) \<and>
   fst (navigate_to_node env_tag get_state ''RFJ4'' ''req'' world_pdt4) \<and>
   current_node (snd (navigate_to_node env_tag get_state ''RFJ4'' ''req'' world_pdt4)) = ''RFJ4'' \<and>
   \<not> in_NODE_MAPPING ''RFJ4''"
proof -
  let ?w2 = "send_command CMD_FORWARD (update_trolley_status ''req'' (''moving_to:'' @ ''RFJ4'') world_pdt4)"
  have ne: "current_node world_pdt4 \<noteq> ''RFJ4''" by (simp add: world_pdt4_def)
  have uid: "get_expected_uid env_tag ''RFJ4'' = Some ''04c3d4''"
    by (simp add: get_expected_uid_def env_tag_def registry1_def lower_def lower_char_def)
  have g: "get_turn_for_transition (current_node world_pdt4) ''RFJ4'' = None"
    by (simp add: get_turn_for_transition_def world_pdt4_def startswith_def)
  have eq: "navigate_to_node env_tag get_state ''RFJ4'' ''req'' world_pdt4 =
      nav_loop env_tag get_state ''RFJ4'' ''req'' ''04c3d4'' (clock world_pdt4) CMD_FORWARD ?w2"
    using ne uid g by (rule navigate_forward)
  have t: "clock ?w2 - clock world_pdt4 < navigation_timeout"
    by (simp add: ops world_pdt4_def world0_def navigation_timeout_def)
  have m: "rfid_uid (serial_lines env_tag (serial_reads ?w2)) = Some ''04c3d4''"
    by (simp add: env_tag_def rfid_uid_def startswith_def lower_def lower_char_def)
  have a: "in_NODE_MAPPING (current_node world_pdt4)"
    by (simp add: in_NODE_MAPPING_def NODE_MAPPING_def world_pdt4_def)
  have b: "\<not> in_NODE_MAPPING ''RFJ4''"
    by (simp add: in_NODE_MAPPING_def NODE_MAPPING_def)
  from a b show ?thesis
    unfolding eq nav_loop_match[OF t m] by (simp add: ops)
qed

text \<open>
  C10, amended: \<open>current_node\<close> starts at \<open>home\<close>, a name of the node mapping.
  \<open>set_current_position\<close> leaves the state unchanged when given a name that is not in the
  node mapping, and so keeps \<open>current_node\<close> in the mapping. \<open>navigate_to_node\<close> and
  \<open>reverse_until_node\<close> either leave \<open>current_node\<close> as it was or set it to their
  destination, the latter only when the registry resolved a UID for the destination; the
  node mapping is not consulted. Hence \<open>current_node\<close> stays in the node mapping as long as
  the registry resolves names of the node mapping only.
\<close>

theorem current_node_known_to_mapping_or_registry:
  "in_NODE_MAPPING (current_node (navigator_init w)) \<and>
   (\<not> in_NODE_MAPPING n \<longrightarrow> set_current_position n w = w) \<and>
   (in_NODE_MAPPING (current_node w) \<longrightarrow>
      in_NODE_MAPPING (current_node (set_current_position n w))) \<and>
   (current_node (snd (navigate_to_node e lf d rid w)) = current_node w \<or>
    current_node (snd (navigate_to_node e lf d rid w)) = d \<and> get_expected_uid e d \<noteq> None) \<and>
   (current_node (snd (reverse_until_node e d rid w)) = current_node w \<or>
    current_node (snd (reverse_until_node e d rid w)) = d \<and> get_expected_uid e d \<noteq> None) \<and>
   ((\<forall>m. get_expected_uid e m \<noteq> None \<longrightarrow> in_NODE_MAPPING m) \<and>
    in_NODE_MAPPING (current_node w) \<longrightarrow>
      in_NODE_MAPPING (current_node (snd (navigate_to_node e lf d rid w))) \<and>
      in_NODE_MAPPING (current_node (snd (reverse_until_node e d rid w))))"
proof -
  have home: "in_NODE_MAPPING ''home''"
    by (simp add: in_NODE_MAPPING_def NODE_MAPPING_def)
  have a: "in_NODE_MAPPING (current_node (navigator_init w))"
    using home by (simp add: navigator_init_def)
  have b: "\<not> in_NODE_MAPPING n \<longrightarrow> set_current_position n w = w"
    using home by (auto simp: set_current_position_def)
  have c: "in_NODE_MAPPING (current_node w) \<longrightarrow>
      in_NODE_MAPPING (current_node (set_current_position n w))"
    using home by (auto simp: set_current_position_def)
  have nav: "current_node (snd (navigate_to_node e lf d rid w)) = current_node w \<or>
    current_node (snd (navigate_to_node e lf d rid w)) = d \<and> get_expected_uid e d \<noteq> None"
  proof (cases "get_expected_uid e d")
    case None
    then show ?thesis
      by (cases "current_node w = d") (simp_all add: navigate_same navigate_no_uid ops)
  next
    case (Some u)
    from navigate_current_node[OF Some, of lf rid w] Some show ?thesis by simp
  qed
  have rev: "current_node (snd (reverse_until_node e d rid w)) = current_node w \<or>
    current_node (snd (reverse_until_node e d rid w)) = d \<and> get_expected_uid e d \<noteq> None"
  proof (cases "get_expected_uid e d")
    case None
    then show ?thesis
      by (cases "current_node w = ''home'' \<or> d = ''home''")
         (simp_all add: reverse_until_node_refused reverse_until_node_no_uid ops)
  next
    case (Some u)
    from reverse_current_node[OF Some, of rid w] Some show ?thesis by simp
  qed
  have inv: "in_NODE_MAPPING (current_node (snd (navigate_to_node e lf d rid w))) \<and>
      in_NODE_MAPPING (current_node (snd (reverse_until_node e d rid w)))"
    if "\<forall>m. get_expected_uid e m \<noteq> None \<longrightarrow> in_NODE_MAPPING m"
      "in_NODE_MAPPING (current_node w)"
    using that nav rev by metis
  from a b c nav rev inv show ?thesis by blast
qed

theorem current_node_known_to_mapping_or_registry_witness:
  "\<not> in_NODE_MAPPING ''RFJ4'' \<and> set_current_position ''RFJ4'' world0 = world0 \<and>
   in_NODE_MAPPING (current_node world0) \<and>
   in_NODE_MAPPING (current_node (set_current_position ''pdt4'' world0))"
proof -
  have a: "\<not> in_NODE_MAPPING ''RFJ4''"
    by (simp add: in_NODE_MAPPING_def NODE_MAPPING_def)
  have b: "in_NODE_MAPPING (current_node world0)"
    by (simp add: in_NODE_MAPPING_def NODE_MAPPING_def world0_def)
  from current_node_known_to_mapping_or_registry[where w=world0 and n="''RFJ4''"] a
  have c: "set_current_position ''RFJ4'' world0 = world0" by blast
  from current_node_known_to_mapping_or_registry[where w=world0 and n="''pdt4''"] b
  have d: "in_NODE_MAPPING (current_node (set_current_position ''pdt4'' world0))" by blast
  from a b c d show ?thesis by blast
qed

subsection \<open>The cart merge\<close>

lemma merge_items_distinct:
  "distinct (map fst c) \<Longrightarrow> distinct (map fst (merge_items c delta))"
  by (induction c delta rule: merge_items.induct)
     (simp_all add: distinct_update split: option.splits)


lemma merge_items_ignored:
  "(\<And>q. (k, q) \<in> set delta \<Longrightarrow> k = ''processed'' \<or> k = ''action'' \<or> py_int q = None) \<Longrightarrow>
   map_of (merge_items c delta) k = map_of c k"
proof (induction c delta rule: merge_items.induct)
  case (1 c)
  show ?case by simp
next
  case (2 c p q rest)
  show ?case
  proof (cases "p = ''processed'' \<or> p = ''action''")
    case True
    with 2 show ?thesis by simp
  next
    case False
    show ?thesis
    proof (cases "py_int q")
      case None
      with False 2 show ?thesis by simp
    next
      case (Some n)
      with False "2.prems"[of q] have "p \<noteq> k" by auto
      with False Some 2 show ?thesis by (simp add: update_conv')
    qed
  qed
qed


lemma map_of_final_cart:
  "distinct (map fst c) \<Longrightarrow>
   map_of (final_cart c) k =
     (case map_of c k of None \<Rightarrow> None | Some q \<Rightarrow> if q > 0 then Some q else None)"
proof (induction c)
  case Nil
  show ?case by (simp add: final_cart_def)
next
  case (Cons a c)
  obtain p q where a: "a = (p, q)" by (cases a)
  from Cons have IH: "map_of (final_cart c) k =
     (case map_of c k of None \<Rightarrow> None | Some q \<Rightarrow> if q > 0 then Some q else None)"
    by simp
  from Cons.prems a have "map_of c p = None"
    by (simp add: map_of_eq_None_iff)
  with IH a show ?case
    by (auto simp: final_cart_def split: option.splits)
qed

lemma final_cart_persisted: "persisted_cart c \<Longrightarrow> final_cart c = c"
  by (simp add: persisted_cart_def final_cart_def list_all_iff)



lemma carts_merge_shopping_list:
  "carts (merge_shopping_list rid delta w) rid = final_cart (merge_items (carts w rid) delta)"
  by (simp add: merge_shopping_list_def Let_def ops)



text \<open>
  C9: the merge ignores the reserved keys \<open>processed\<close> and \<open>action\<close> and every entry whose
  quantity does not convert to an integer: for such an entry of the delta the result
  holds for its key what the filter of positive quantities leaves of the cart as it was,
  which for a persisted cart is exactly the quantity it held before the merge (or no
  entry, if it held none).
\<close>

theorem cart_merge_ignores_reserved_and_unconvertible:
  assumes "distinct (map fst delta)" and "(k, q) \<in> set delta"
    and "k = ''processed'' \<or> k = ''action'' \<or> py_int q = None"
    and "distinct (map fst (carts w rid))"
  shows "map_of (carts (merge_shopping_list rid delta w) rid) k =
           map_of (final_cart (carts w rid)) k \<and>
         (persisted_cart (carts w rid) \<longrightarrow>
            map_of (carts (merge_shopping_list rid delta w) rid) k = map_of (carts w rid) k)"
proof -
  have only: "q' = q" if "(k, q') \<in> set delta" for q'
    using eq_key_imp_eq_value[OF assms(1) that assms(2)] .
  have ign: "k = ''processed'' \<or> k = ''action'' \<or> py_int q' = None"
    if "(k, q') \<in> set delta" for q'
    using only[OF that] assms(3) by simp
  have "map_of (merge_items (carts w rid) delta) k = map_of (carts w rid) k"
    using ign by (rule merge_items_ignored)
  then have a: "map_of (carts (merge_shopping_list rid delta w) rid) k =
           map_of (final_cart (carts w rid)) k"
    using assms(4)
    by (simp add: carts_merge_shopping_list map_of_final_cart merge_items_distinct)
  have b: "map_of (carts (merge_shopping_list rid delta w) rid) k = map_of (carts w rid) k"
    if "persisted_cart (carts w rid)"
    using a final_cart_persisted[OF that] by simp
  from a b show ?thesis by blast
qed

theorem cart_merge_ignores_reserved_and_unconvertible_witness:
  "map_of (carts (merge_shopping_list ''req1'' [(''pdt1'', Fails), (''action'', Converts 7)]
                    world_cart) ''req1'') ''pdt1'' = Some 2 \<and>
   map_of (carts (merge_shopping_list ''req1'' [(''pdt1'', Fails), (''action'', Converts 7)]
                    world_cart) ''req1'') ''action'' = None"
proof -
  have d: "distinct (map fst [(''pdt1'', Fails), (''action'', Converts 7)])" by simp
  have c: "distinct (map fst (carts world_cart ''req1''))"
    by (simp add: world_cart_def)
  have p: "persisted_cart (carts world_cart ''req1'')"
    by (simp add: world_cart_def persisted_cart_def)
  have m1: "(''pdt1'', Fails) \<in> set [(''pdt1'', Fails), (''action'', Converts 7)]" by simp
  have r1: "''pdt1'' = ''processed'' \<or> ''pdt1'' = ''action'' \<or> py_int Fails = None" by simp
  have m2: "(''action'', Converts 7) \<in> set [(''pdt1'', Fails), (''action'', Converts 7)]" by simp
  have r2: "''action'' = ''processed'' \<or> ''action'' = ''action'' \<or> py_int (Converts 7) = None"
    by simp
  from cart_merge_ignores_reserved_and_unconvertible[OF d m1 r1 c] p
  have one: "map_of (carts (merge_shopping_list ''req1'' [(''pdt1'', Fails), (''action'', Converts 7)]
                    world_cart) ''req1'') ''pdt1'' = map_of (carts world_cart ''req1'') ''pdt1''"
    by blast
  from cart_merge_ignores_reserved_and_unconvertible[OF d m2 r2 c] p
  have two: "map_of (carts (merge_shopping_list ''req1'' [(''pdt1'', Fails), (''action'', Converts 7)]
                    world_cart) ''req1'') ''action'' = map_of (carts world_cart ''req1'') ''action''"
    by blast
  from one two show ?thesis by (simp add: world_cart_def)
qed

subsection \<open>The request boundary\<close>

lemma process_request_not_dict:
  "\<forall>d. dat \<noteq> JDict d \<Longrightarrow> process_request mh psl rid dat w = (Inl AttributeError, w)"
  by (cases dat) (auto simp: process_request_def)

lemma process_request_home_raises:
  "map_of d ''action'' = Some (JStr ''home'') \<Longrightarrow>
   \<exists>ex. fst (process_request mh psl rid (JDict d) w) = Inl ex"
  by (cases "mh rid w") (auto simp: process_request_def split: sum.splits)

text \<open>
  C8: once a request is taken up (a \<open>put\<close> or \<open>patch\<close> event with a request id, with data,
  and not already being processed), the processing flag of the request is deleted when
  the handler returns, whether \<open>process_request\<close> returned or raised, and whatever its
  callees did. When it raised, the handler caught the exception, reported
  \<open>error:critical_processing_exception\<close> and then sent the stop command; when it returned,
  the handler reported and sent nothing more. Processing does raise: on data that is not
  a dictionary, and always after a journey home.
\<close>

theorem processing_flag_cleared_on_every_exit:
  assumes "event_type ev = ''put'' \<or> event_type ev = ''patch''"
    and "last_segment (path ev) = rid"
    and "rid \<noteq> []" and "rid \<noteq> ''trolleyRequests''" and "data ev \<noteq> JNull"
    and "\<not> is_processing rid w"
  shows "processing (handle_new_request_callback mh psl ev w) rid = None \<and>
         (case fst (process_request mh psl rid (data ev) (set_processing_status rid True w)) of
            Inr u \<Rightarrow>
              statuses (handle_new_request_callback mh psl ev w) =
                statuses (snd (process_request mh psl rid (data ev)
                                 (set_processing_status rid True w))) \<and>
              sent (handle_new_request_callback mh psl ev w) =
                sent (snd (process_request mh psl rid (data ev)
                             (set_processing_status rid True w)))
          | Inl ex \<Rightarrow>
              statuses (handle_new_request_callback mh psl ev w) =
                statuses (snd (process_request mh psl rid (data ev)
                                 (set_processing_status rid True w))) @
                [(rid, ''error:critical_processing_exception'')] \<and>
              sent (handle_new_request_callback mh psl ev w) =
                sent (snd (process_request mh psl rid (data ev)
                             (set_processing_status rid True w))) @ [CMD_STOP]) \<and>
         ((\<forall>d. data ev \<noteq> JDict d) \<or>
          (\<exists>d. data ev = JDict d \<and> map_of d ''action'' = Some (JStr ''home'')) \<longrightarrow>
            (\<exists>ex. fst (process_request mh psl rid (data ev) (set_processing_status rid True w))
                    = Inl ex))"
proof -
  let ?r = "process_request mh psl rid (data ev) (set_processing_status rid True w)"
  obtain res w2 where r: "?r = (res, w2)" by (cases ?r)
  have h: "handle_new_request_callback mh psl ev w =
      (case res of
         Inr u \<Rightarrow> delete_processing_status rid w2
       | Inl ex \<Rightarrow> delete_processing_status rid
           (send_command CMD_STOP
              (update_trolley_status rid ''error:critical_processing_exception'' w2)))"
    using assms r by (simp add: handle_new_request_callback_def Let_def split: sum.splits)
  have a: "processing (handle_new_request_callback mh psl ev w) rid = None"
    unfolding h by (cases res) (simp_all add: delete_processing_status_def ops)
  have b: "(case fst ?r of
            Inr u \<Rightarrow>
              statuses (handle_new_request_callback mh psl ev w) = statuses (snd ?r) \<and>
              sent (handle_new_request_callback mh psl ev w) = sent (snd ?r)
          | Inl ex \<Rightarrow>
              statuses (handle_new_request_callback mh psl ev w) =
                statuses (snd ?r) @ [(rid, ''error:critical_processing_exception'')] \<and>
              sent (handle_new_request_callback mh psl ev w) = sent (snd ?r) @ [CMD_STOP])"
    unfolding h r by (cases res) (simp_all add: delete_processing_status_def ops)
  have c: "\<exists>ex. fst ?r = Inl ex"
    if "(\<forall>d. data ev \<noteq> JDict d) \<or>
        (\<exists>d. data ev = JDict d \<and> map_of d ''action'' = Some (JStr ''home''))"
    using that
  proof
    assume "\<forall>d. data ev \<noteq> JDict d"
    then show ?thesis by (simp add: process_request_not_dict)
  next
    assume "\<exists>d. data ev = JDict d \<and> map_of d ''action'' = Some (JStr ''home'')"
    then obtain d where "data ev = JDict d" "map_of d ''action'' = Some (JStr ''home'')"
      by blast
    then show ?thesis using process_request_home_raises[of d mh psl rid] by simp
  qed
  from a b c show ?thesis by blast
qed

theorem processing_flag_cleared_on_every_exit_witness:
  "processing (handle_new_request_callback home_returns list_returns event_home world0) ''req1''
     = None \<and>
   statuses (handle_new_request_callback home_returns list_returns event_home world0) =
     [(''req1'', ''error:critical_processing_exception'')] \<and>
   sent (handle_new_request_callback home_returns list_returns event_home world0) = [CMD_STOP] \<and>
   processing (handle_new_request_callback home_returns list_returns event_empty world0) ''req1''
     = None \<and>
   statuses (handle_new_request_callback home_returns list_returns event_empty world0) =
     [(''req1'', ''error:invalid_request_format'')] \<and>
   sent (handle_new_request_callback home_returns list_returns event_empty world0) = []"
proof -
  have t: "event_type event_home = ''put'' \<or> event_type event_home = ''patch''"
    "event_type event_empty = ''put'' \<or> event_type event_empty = ''patch''"
    by (simp_all add: event_home_def event_empty_def)
  have s: "last_segment (path event_home) = ''req1''" "last_segment (path event_empty) = ''req1''"
    by (simp_all add: event_home_def event_empty_def last_segment_def)
  have n: "''req1'' \<noteq> []" "''req1'' \<noteq> ''trolleyRequests''" by simp_all
  have d: "data event_home \<noteq> JNull" "data event_empty \<noteq> JNull"
    by (simp_all add: event_home_def event_empty_def)
  have p: "\<not> is_processing ''req1'' world0" by (simp add: is_processing_def world0_def)
  have r1: "process_request home_returns list_returns ''req1'' (data event_home)
              (set_processing_status ''req1'' True world0) =
            (Inl NameError, set_processing_status ''req1'' True world0)"
    by (simp add: process_request_def event_home_def home_returns_def)
  have r2: "process_request home_returns list_returns ''req1'' (data event_empty)
              (set_processing_status ''req1'' True world0) =
            (Inr (), update_trolley_status ''req1'' ''error:invalid_request_format''
                       (set_processing_status ''req1'' True world0))"
    by (simp add: process_request_def event_empty_def)
  from processing_flag_cleared_on_every_exit[OF t(1) s(1) n d(1) p, of home_returns list_returns]
    processing_flag_cleared_on_every_exit[OF t(2) s(2) n d(2) p, of home_returns list_returns]
  show ?thesis
    unfolding r1 r2 by (simp add: set_processing_status_def ops world0_def)
qed

end
